theory Spec2Isabelle
  imports Complex_Main
begin

section \<open>Python values and errors\<close>

text \<open>
  The evaluator returns Python dictionaries keyed by strings. A dictionary is a map from
  keys to values; the values that occur are \<open>None\<close>, integers, strings and lists of
  strings. Exceptions are values of \<open>py_error\<close>; a function that may raise returns
  \<open>py_error + 'a\<close>, with \<open>Inl\<close> for the exception.
\<close>

datatype pyval = PNone | PInt int | PStr string | PList "string list"

type_synonym pydict = "string \<rightharpoonup> pyval"

datatype py_error =
    RuntimeError string
  | ValueError string
  | AssertionError
  | IndexError
  | TypeError

text \<open>\<open>d.get(k)\<close>: the value under \<open>k\<close>, or \<open>None\<close> when the key is absent.\<close>

definition py_get :: "pydict \<Rightarrow> string \<Rightarrow> pyval" where
  "py_get d k = (case d k of None \<Rightarrow> PNone | Some v \<Rightarrow> v)"

section \<open>Decimal rendering\<close>

definition digit_char :: "nat \<Rightarrow> char" where
  "digit_char d = ''0123456789'' ! d"

text \<open>\<open>str(n)\<close> for a non-negative integer.\<close>

fun str_nat :: "nat \<Rightarrow> string" where
  "str_nat n = (if n < 10 then [digit_char n] else str_nat (n div 10) @ [digit_char (n mod 10)])"

declare str_nat.simps [simp del]

text \<open>
  \<open>f"{pawns:+.2f}"\<close> for \<open>pawns = centipawns / 100\<close>: a sign that is always
  printed, the integral part, and two decimals. The float \<open>centipawns / 100\<close> is the
  double nearest to the decimal with two places, and printing it with two places gives
  that decimal back as long as the spacing of doubles at \<open>pawns\<close> is below one
  hundredth, that is for \<open>|pawns| < 2^46\<close>; so for \<open>|centipawns| < 10^15\<close>, far beyond
  engine scores, the digits are those of the integer \<open>centipawns\<close>, which this function
  prints. Outside that range the code prints the digits of the rounded double, which
  may differ, and this function does not describe it.
\<close>

definition fmt_pawns :: "int \<Rightarrow> string" where
  "fmt_pawns centipawns =
     (let a = nat \<bar>centipawns\<bar> in
      (if centipawns < 0 then ''-'' else ''+'') @ str_nat (a div 100) @ ''.'' @
      [digit_char (a mod 100 div 10), digit_char (a mod 10)])"

section \<open>The chess library as used by the evaluator\<close>

text \<open>
  The evaluator is written against the \<open>chess\<close> package (python-chess), which is not
  part of the repository. Its scores are small closed classes and are written out here
  as the package defines them; its rules of chess (positions, legality, notation) are
  taken as a parameter.
\<close>

datatype color = WHITE | BLACK

text \<open>
  \<open>chess.engine.Score\<close>: \<open>Cp(cp)\<close>, \<open>Mate(moves)\<close> and the singleton
  \<open>MateGiven\<close>. Negation maps \<open>Cp(c)\<close> to \<open>Cp(-c)\<close>, \<open>Mate(m)\<close> to
  \<open>Mate(-m)\<close> (to \<open>MateGiven\<close> when \<open>m\<close> is \<open>0\<close>) and \<open>MateGiven\<close> to
  \<open>Mate(0)\<close>.
\<close>

datatype score = Cp int | Mate int | MateGiven

fun neg_score :: "score \<Rightarrow> score" where
  "neg_score (Cp c) = Cp (- c)"
| "neg_score (Mate m) = (if m = 0 then MateGiven else Mate (- m))"
| "neg_score MateGiven = Mate 0"

fun is_mate :: "score \<Rightarrow> bool" where
  "is_mate (Cp c) = False"
| "is_mate (Mate m) = True"
| "is_mate MateGiven = True"

text \<open>\<open>Score.mate()\<close> and \<open>Score.score()\<close> (without a \<open>mate_score\<close> argument).\<close>

fun mate :: "score \<Rightarrow> int option" where
  "mate (Cp c) = None"
| "mate (Mate m) = Some m"
| "mate MateGiven = Some 0"

fun score_cp :: "score \<Rightarrow> int option" where
  "score_cp (Cp c) = Some c"
| "score_cp (Mate m) = None"
| "score_cp MateGiven = None"

text \<open>
  \<open>chess.engine.PovScore\<close>: a score \<open>relative\<close> to the point of view \<open>turn\<close>.
  The engine reports scores relative to the side to move, so the package builds
  \<open>PovScore(score, board.turn)\<close>. \<open>pov(color)\<close> is \<open>relative\<close> when \<open>color\<close> is the
  point of view and its negation otherwise; \<open>white()\<close> is \<open>pov(WHITE)\<close>.
\<close>

record pov_score =
  relative :: score
  pov_turn :: color

definition pov :: "pov_score \<Rightarrow> color \<Rightarrow> score" where
  "pov ps c = (if pov_turn ps = c then relative ps else neg_score (relative ps))"

definition white :: "pov_score \<Rightarrow> score" where
  "white ps = pov ps WHITE"

text \<open>
  The rules of chess, over positions \<open>'p\<close> and moves \<open>'m\<close>:
  \<^item> \<open>parse_fen\<close> is \<open>chess.Board(fen)\<close>, \<open>Inl\<close> its \<open>ValueError\<close> message;
  \<^item> \<open>starting\<close> is \<open>chess.Board()\<close>; \<open>fen_of\<close> is \<open>board.fen()\<close>; \<open>turn_of\<close>
    is \<open>board.turn\<close>;
  \<^item> \<open>from_uci\<close> is \<open>chess.Move.from_uci\<close>, \<open>Inl\<close> the message of its
    \<open>InvalidMoveError\<close> (a \<open>ValueError\<close>); \<open>uci_of\<close> is \<open>move.uci()\<close>;
  \<^item> \<open>is_legal\<close> is \<open>move in board.legal_moves\<close>;
  \<^item> \<open>apply_move\<close> is the position after \<open>board.push(move)\<close>; \<open>push\<close> does not
    check legality, and \<open>None\<close> stands for its failed assertion;
  \<^item> \<open>san_of\<close> is \<open>board.san(move)\<close>, \<open>None\<close> when it raises (\<open>ValueError\<close>
    or \<open>AssertionError\<close>).
\<close>

record ('p, 'm) rules =
  parse_fen :: "string \<Rightarrow> string + 'p"
  starting :: 'p
  fen_of :: "'p \<Rightarrow> string"
  turn_of :: "'p \<Rightarrow> color"
  from_uci :: "string \<Rightarrow> string + 'm"
  uci_of :: "'m \<Rightarrow> string"
  is_legal :: "'p \<Rightarrow> 'm \<Rightarrow> bool"
  apply_move :: "'p \<Rightarrow> 'm \<Rightarrow> 'p option"
  san_of :: "'p \<Rightarrow> 'm \<Rightarrow> string option"

text \<open>
  A \<open>chess.Board\<close> object: the current position and the stack of the positions saved
  by \<open>push\<close>, which \<open>pop\<close> restores (\<open>IndexError\<close> on an empty stack).
\<close>

record 'p board =
  cur :: 'p
  saved :: "'p list"

definition new_board :: "'p \<Rightarrow> 'p board" where
  "new_board p = \<lparr>cur = p, saved = []\<rparr>"

definition push :: "('p, 'm) rules \<Rightarrow> 'p board \<Rightarrow> 'm \<Rightarrow> py_error + 'p board" where
  "push R b m =
     (case apply_move R (cur b) m of
        None \<Rightarrow> Inl AssertionError
      | Some p \<Rightarrow> Inr \<lparr>cur = p, saved = cur b # saved b\<rparr>)"

definition pop :: "'p board \<Rightarrow> py_error + 'p board" where
  "pop b =
     (case saved b of
        [] \<Rightarrow> Inl IndexError
      | p # ps \<Rightarrow> Inr \<lparr>cur = p, saved = ps\<rparr>)"

text \<open>
  \<open>chess.engine.Limit\<close> with either \<open>time\<close> or \<open>depth\<close> set. The time is a float
  that the evaluator only tests for truth (non-zero) and passes on; it is a rational
  here.
\<close>

datatype limit = Limit_time rat | Limit_depth int

text \<open>
  The \<open>info\<close> dictionary returned by \<open>engine.analyse\<close>: the keys \<open>score\<close>,
  \<open>depth\<close> and \<open>pv\<close>, each of which may be absent.
\<close>

record 'm info =
  info_score :: "pov_score option"
  info_depth :: "int option"
  info_pv :: "'m list option"

section \<open>ChessEngineEvaluator\<close>

text \<open>
  The object's fields. \<open>engine\<close> is \<open>None\<close> until the context manager starts the
  process; a started engine answers \<open>analyse(board, limit)\<close>, here a function of the
  position and the limit.
\<close>

record ('p, 'm) evaluator =
  depth :: int
  engine_path :: string
  engine :: "('p \<Rightarrow> limit \<Rightarrow> 'm info) option"

text \<open>
  \<open>__init__\<close> with the path of the executable given (the search of the file system
  for an executable, when it is not, is outside this development), and \<open>__enter__\<close>,
  which stores the started process.
\<close>

definition init :: "string \<Rightarrow> int \<Rightarrow> ('p, 'm) evaluator" where
  "init path d = \<lparr>depth = d, engine_path = path, engine = None\<rparr>"

definition enter :: "('p \<Rightarrow> limit \<Rightarrow> 'm info) \<Rightarrow> ('p, 'm) evaluator \<Rightarrow> ('p, 'm) evaluator" where
  "enter process self = self\<lparr>engine := Some process\<rparr>"

subsection \<open>\<open>_format_evaluation\<close>\<close>

text \<open>
  \<open>pawns = centipawns / 100\<close> is a float division. The quotient is rounded to the
  nearest double, rounding is monotone, and the thresholds \<open>0.5\<close>, \<open>1.5\<close>, \<open>3.0\<close> and
  \<open>0\<close> are doubles, so each comparison has the value it has on the exact quotient,
  which is computed here. For an integer beyond the range of doubles the division
  raises \<open>OverflowError\<close>; with the formatted number, the function describes the code
  for \<open>|centipawns| < 10^15\<close>, and what is proved of it is stated in that range.
\<close>

definition format_evaluation :: "int \<Rightarrow> string" where
  "format_evaluation centipawns =
     (let pawns = (of_int centipawns :: rat) / 100 in
      if \<bar>pawns\<bar> < 1 / 2 then ''Equal position''
      else if \<bar>pawns\<bar> < 3 / 2 then
        (let side = (if pawns > 0 then ''white'' else ''black'')
         in ''Slight advantage for '' @ side @ '' ('' @ fmt_pawns centipawns @ '')'')
      else if \<bar>pawns\<bar> < 3 then
        (let side = (if pawns > 0 then ''white'' else ''black'')
         in ''Clear advantage for '' @ side @ '' ('' @ fmt_pawns centipawns @ '')'')
      else
        (let side = (if pawns > 0 then ''white'' else ''black'')
         in ''Winning for '' @ side @ '' ('' @ fmt_pawns centipawns @ '')''))"

subsection \<open>\<open>evaluate_position\<close>\<close>

text \<open>
  The analysis limit: \<open>Limit(time=time_limit)\<close> if \<open>time_limit\<close> is truthy (neither
  \<open>None\<close> nor zero), else \<open>Limit(depth=depth or self.depth)\<close>.
\<close>

definition analysis_limit :: "('p, 'm) evaluator \<Rightarrow> int option \<Rightarrow> rat option \<Rightarrow> limit" where
  "analysis_limit self depth_arg time_limit =
     (case time_limit of
        Some t \<Rightarrow>
          if t \<noteq> 0 then Limit_time t
          else Limit_depth (case depth_arg of
                              Some d \<Rightarrow> if d \<noteq> 0 then d else depth self
                            | None \<Rightarrow> depth self)
      | None \<Rightarrow>
          Limit_depth (case depth_arg of
                         Some d \<Rightarrow> if d \<noteq> 0 then d else depth self
                       | None \<Rightarrow> depth self))"

text \<open>
  The score block (\<open>if score:\<close>, which holds for every \<open>PovScore\<close> object): the
  conversion, then the \<open>mate\<close>, \<open>score\<close> and \<open>evaluation_text\<close> entries. A
  \<open>None\<close> from \<open>mate()\<close> or \<open>score()\<close> would make \<open>abs\<close> or the division raise
  \<open>TypeError\<close>.
\<close>

definition store_score :: "color \<Rightarrow> pov_score \<Rightarrow> pydict \<Rightarrow> py_error + pydict" where
  "store_score board_turn ps result =
     (let score = (if board_turn = BLACK then neg_score (white ps) else white ps) in
      if is_mate score then
        (case mate score of
           None \<Rightarrow> Inl TypeError
         | Some mate_in \<Rightarrow>
             Inr (result(''mate'' \<mapsto> PInt mate_in, ''score'' \<mapsto> PNone,
                         ''evaluation_text'' \<mapsto>
                            PStr (''Mate in '' @ str_nat (nat \<bar>mate_in\<bar>) @
                                  (if mate_in > 0 then '' for white'' else '' for black'')))))
      else
        (case score_cp score of
           None \<Rightarrow> Inl TypeError
         | Some cp_score \<Rightarrow>
             Inr (result(''score'' \<mapsto> PInt cp_score, ''mate'' \<mapsto> PNone,
                         ''evaluation_text'' \<mapsto> PStr (format_evaluation cp_score)))))"

text \<open>
  The loop that renders the first moves of the line on a copy of the board. An
  exception of \<open>san\<close> leaves the list as it is; an exception of \<open>push\<close> comes after
  the move was appended.
\<close>

fun pv_san_loop :: "('p, 'm) rules \<Rightarrow> 'p board \<Rightarrow> string list \<Rightarrow> 'm list \<Rightarrow> string list" where
  "pv_san_loop R board_copy pv_san [] = pv_san"
| "pv_san_loop R board_copy pv_san (move # rest) =
     (case san_of R (cur board_copy) move of
        None \<Rightarrow> pv_san
      | Some s \<Rightarrow>
          (case push R board_copy move of
             Inl e \<Rightarrow> pv_san @ [s]
           | Inr board_copy' \<Rightarrow> pv_san_loop R board_copy' (pv_san @ [s]) rest))"

text \<open>The block \<open>if 'pv' in info and info['pv']:\<close>.\<close>

definition store_pv :: "('p, 'm) rules \<Rightarrow> 'p board \<Rightarrow> 'm list option \<Rightarrow> pydict \<Rightarrow> pydict" where
  "store_pv R board pv_opt result =
     (case pv_opt of
        None \<Rightarrow> result
      | Some [] \<Rightarrow> result
      | Some (first # others) \<Rightarrow>
          result(''best_move'' \<mapsto> PStr (uci_of R first),
                 ''pv'' \<mapsto> PList (map (uci_of R) (first # others)),
                 ''pv_san'' \<mapsto> PList (pv_san_loop R board [] (take 10 (first # others)))))"

text \<open>Everything after \<open>info = self.engine.analyse(board, limit)\<close>.\<close>

definition build_result ::
  "('p, 'm) rules \<Rightarrow> string \<Rightarrow> 'p board \<Rightarrow> 'm info \<Rightarrow> py_error + pydict" where
  "build_result R fen board info =
     (let result = [''fen'' \<mapsto> PStr fen,
                    ''depth'' \<mapsto> (case info_depth info of None \<Rightarrow> PNone | Some d \<Rightarrow> PInt d)]
      in case (case info_score info of
                 None \<Rightarrow> Inr result
               | Some ps \<Rightarrow> store_score (turn_of R (cur board)) ps result) of
           Inl e \<Rightarrow> Inl e
         | Inr result \<Rightarrow> Inr (store_pv R board (info_pv info) result))"

definition evaluate_position ::
  "('p, 'm) rules \<Rightarrow> ('p, 'm) evaluator \<Rightarrow> string \<Rightarrow> int option \<Rightarrow> rat option \<Rightarrow> py_error + pydict" where
  "evaluate_position R self fen depth_arg time_limit =
     (case engine self of
        None \<Rightarrow> Inl (RuntimeError ''Engine not started. Use 'with' statement or call start_engine()'')
      | Some analyse \<Rightarrow>
          (case parse_fen R fen of
             Inl msg \<Rightarrow> Inl (ValueError msg)
           | Inr p \<Rightarrow>
               (let board = new_board p;
                    limit = analysis_limit self depth_arg time_limit;
                    info = analyse (cur board) limit
                in build_result R fen board info)))"

subsection \<open>\<open>evaluate_moves_sequence\<close>\<close>




subsection \<open>\<open>compare_moves\<close>\<close>

text \<open>
  \<open>if evaluation.get(k) is not None: evaluation[k] = -evaluation[k]\<close>. Negating a
  string or a list raises \<open>TypeError\<close>.
\<close>

definition negate_entry :: "string \<Rightarrow> pydict \<Rightarrow> py_error + pydict" where
  "negate_entry k evaluation =
     (case py_get evaluation k of
        PNone \<Rightarrow> Inr evaluation
      | PInt x \<Rightarrow> Inr (evaluation(k \<mapsto> PInt (- x)))
      | PStr s \<Rightarrow> Inl TypeError
      | PList l \<Rightarrow> Inl TypeError)"

text \<open>
  The loop over the candidates, with the working board and the result dictionary as its
  state. The \<open>except ValueError\<close> clause also catches a \<open>ValueError\<close> of
  \<open>evaluate_position\<close>, which is raised after \<open>push\<close> and before \<open>pop\<close>.
\<close>

fun compare_loop ::
  "('p, 'm) rules \<Rightarrow> ('p, 'm) evaluator \<Rightarrow> int option \<Rightarrow> 'p board \<Rightarrow> (string \<rightharpoonup> pydict) \<Rightarrow>
   string list \<Rightarrow> py_error + ('p board \<times> (string \<rightharpoonup> pydict))" where
  "compare_loop R self depth_arg board results [] = Inr (board, results)"
| "compare_loop R self depth_arg board results (move_uci # rest) =
     (case from_uci R move_uci of
        Inl msg \<Rightarrow>
          compare_loop R self depth_arg board (results(move_uci \<mapsto> [''error'' \<mapsto> PStr msg])) rest
      | Inr move \<Rightarrow>
          if \<not> is_legal R (cur board) move then
            compare_loop R self depth_arg board
              (results(move_uci \<mapsto> [''error'' \<mapsto> PStr ''Illegal move''])) rest
          else
            (case push R board move of
               Inl e \<Rightarrow> Inl e
             | Inr board1 \<Rightarrow>
                 (case evaluate_position R self (fen_of R (cur board1)) depth_arg None of
                    Inl e \<Rightarrow>
                      (case e of
                         ValueError msg \<Rightarrow>
                           compare_loop R self depth_arg board1
                             (results(move_uci \<mapsto> [''error'' \<mapsto> PStr msg])) rest
                       | _ \<Rightarrow> Inl e)
                  | Inr evaluation \<Rightarrow>
                      (case negate_entry ''score'' evaluation of
                         Inl e \<Rightarrow> Inl e
                       | Inr evaluation1 \<Rightarrow>
                           (case negate_entry ''mate'' evaluation1 of
                              Inl e \<Rightarrow> Inl e
                            | Inr evaluation2 \<Rightarrow>
                                (case pop board1 of
                                   Inl e \<Rightarrow> Inl e
                                 | Inr board2 \<Rightarrow>
                                     compare_loop R self depth_arg board2
                                       (results(move_uci \<mapsto> evaluation2)) rest))))))"

definition compare_moves ::
  "('p, 'm) rules \<Rightarrow> ('p, 'm) evaluator \<Rightarrow> string \<Rightarrow> string list \<Rightarrow> int option \<Rightarrow>
   py_error + (string \<rightharpoonup> pydict)" where
  "compare_moves R self fen moves depth_arg =
     (case parse_fen R fen of
        Inl msg \<Rightarrow> Inl (ValueError msg)
      | Inr p \<Rightarrow>
          (case compare_loop R self depth_arg (new_board p) Map.empty moves of
             Inl e \<Rightarrow> Inl e
           | Inr (board, results) \<Rightarrow> Inr results))"

section \<open>Properties of the rules and of lines of moves\<close>

text \<open>
  What the evaluator relies on in the chess library: a descriptor produced by
  \<open>board.fen()\<close> is accepted by \<open>chess.Board\<close>; a legal move can be pushed; a legal
  move is rendered by \<open>san\<close>.
\<close>

definition descriptors_parse :: "('p, 'm) rules \<Rightarrow> bool" where
  "descriptors_parse R \<longleftrightarrow> (\<forall>p. \<exists>q. parse_fen R (fen_of R p) = Inr q)"

definition legal_moves_apply :: "('p, 'm) rules \<Rightarrow> bool" where
  "legal_moves_apply R \<longleftrightarrow> (\<forall>p m. is_legal R p m \<longrightarrow> apply_move R p m \<noteq> None)"

definition legal_moves_render :: "('p, 'm) rules \<Rightarrow> bool" where
  "legal_moves_render R \<longleftrightarrow> (\<forall>p m. is_legal R p m \<longrightarrow> san_of R p m \<noteq> None)"


text \<open>
  The position reached by pushing the moves of a line one after the other; \<open>None\<close>
  if one of them cannot be pushed.
\<close>

fun play :: "('p, 'm) rules \<Rightarrow> 'p \<Rightarrow> 'm list \<Rightarrow> 'p option" where
  "play R p [] = Some p"
| "play R p (m # ms) = (case apply_move R p m of None \<Rightarrow> None | Some p' \<Rightarrow> play R p' ms)"

text \<open>Every move of a line is legal where it is played.\<close>

fun legal_line :: "('p, 'm) rules \<Rightarrow> 'p \<Rightarrow> 'm list \<Rightarrow> bool" where
  "legal_line R p [] = True"
| "legal_line R p (m # ms) =
     (is_legal R p m \<and> (case apply_move R p m of None \<Rightarrow> False | Some p' \<Rightarrow> legal_line R p' ms))"

text \<open>
  What \<open>compare_moves\<close> stores for one candidate when the working board stands at
  \<open>p\<close>, the candidate taken on its own: the error entry of a move that does not parse
  or is not legal, else the evaluation of the position after the move with \<open>score\<close>
  and \<open>mate\<close> negated; \<open>Inl\<close> the exception that leaves the method.
\<close>

definition candidate_result ::
  "('p, 'm) rules \<Rightarrow> ('p, 'm) evaluator \<Rightarrow> int option \<Rightarrow> 'p \<Rightarrow> string \<Rightarrow> py_error + pydict" where
  "candidate_result R self depth_arg p move_uci =
     (case from_uci R move_uci of
        Inl msg \<Rightarrow> Inr [''error'' \<mapsto> PStr msg]
      | Inr move \<Rightarrow>
          if \<not> is_legal R p move then Inr [''error'' \<mapsto> PStr ''Illegal move'']
          else
            (case apply_move R p move of
               None \<Rightarrow> Inl AssertionError
             | Some p' \<Rightarrow>
                 (case evaluate_position R self (fen_of R p') depth_arg None of
                    Inl e \<Rightarrow> Inl e
                  | Inr evaluation \<Rightarrow>
                      (case negate_entry ''score'' evaluation of
                         Inl e \<Rightarrow> Inl e
                       | Inr evaluation1 \<Rightarrow> negate_entry ''mate'' evaluation1))))"

section \<open>A small instance of the rules\<close>

text \<open>
  For evaluation at concrete inputs: a game in which a position is the number of plies
  played (White moves at even counts), written \<open>ply\<close> followed by one \<open>+\<close> per ply.
  There are two moves: \<open>a1a2\<close>, always legal and rendered as \<open>a2\<close>, and \<open>h1h2\<close>,
  well-formed but never legal and not rendered. The engine reports a score of 100
  centipawns for the side to move, the depth of the limit, and a line of eleven times
  \<open>a1a2\<close>.
\<close>

definition ply_rules :: "(nat, nat) rules" where
  "ply_rules =
     \<lparr>parse_fen = (\<lambda>s. if take 3 s = ''ply'' \<and> drop 3 s = replicate (length s - 3) CHR ''+''
                       then Inr (length s - 3) else Inl ''invalid fen''),
      starting = 0,
      fen_of = (\<lambda>p. ''ply'' @ replicate p CHR ''+''),
      turn_of = (\<lambda>p. if even p then WHITE else BLACK),
      from_uci = (\<lambda>s. if s = ''a1a2'' then Inr 0 else if s = ''h1h2'' then Inr 1
                      else Inl ''invalid uci''),
      uci_of = (\<lambda>m. if m = 0 then ''a1a2'' else ''h1h2''),
      is_legal = (\<lambda>p m. m = 0),
      apply_move = (\<lambda>p m. Some (Suc p)),
      san_of = (\<lambda>p m. if m = 0 then Some ''a2'' else None)\<rparr>"

definition ply_engine :: "nat \<Rightarrow> limit \<Rightarrow> nat info" where
  "ply_engine p l =
     \<lparr>info_score = Some \<lparr>relative = Cp 100, pov_turn = (if even p then WHITE else BLACK)\<rparr>,
      info_depth = (case l of Limit_time t \<Rightarrow> None | Limit_depth d \<Rightarrow> Some d),
      info_pv = Some (replicate 11 0)\<rparr>"

definition ply_evaluator :: "(nat, nat) evaluator" where
  "ply_evaluator = enter ply_engine (init ''stockfish'' 20)"

text \<open>
  The same game with a \<open>san\<close> that, like the one of the chess library, does not check
  legality: it renders \<open>h1h2\<close> as \<open>h2\<close> although the move is never legal. The engine
  of this instance reports the line \<open>h1h2 a1a2\<close>. Before it, an engine for the first
  instance that reports the line \<open>a1a2 h1h2 a1a2\<close>, whose second move is not rendered.
\<close>

definition halt_engine :: "nat \<Rightarrow> limit \<Rightarrow> nat info" where
  "halt_engine p l = (ply_engine p l)\<lparr>info_pv := Some [0, 1, 0]\<rparr>"

definition halt_evaluator :: "(nat, nat) evaluator" where
  "halt_evaluator = enter halt_engine (init ''stockfish'' 20)"

definition lax_rules :: "(nat, nat) rules" where
  "lax_rules = ply_rules\<lparr>san_of := (\<lambda>p m. if m = 0 then Some ''a2'' else Some ''h2'')\<rparr>"

definition lax_engine :: "nat \<Rightarrow> limit \<Rightarrow> nat info" where
  "lax_engine p l = (ply_engine p l)\<lparr>info_pv := Some [1, 0]\<rparr>"

definition lax_evaluator :: "(nat, nat) evaluator" where
  "lax_evaluator = enter lax_engine (init ''stockfish'' 20)"

section \<open>Classification of centipawn scores\<close>

lemma abs_pawns_less:
  "\<bar>(of_int c :: rat) / 100\<bar> < of_int k / 100 \<longleftrightarrow> \<bar>c\<bar> < k"
proof -
  have "\<bar>(of_int c :: rat) / 100\<bar> = of_int \<bar>c\<bar> / 100" by simp
  then show ?thesis by (simp add: divide_less_cancel del: of_int_abs)
qed

lemma pawns_half: "\<bar>(of_int c :: rat) / 100\<bar> < 1 / 2 \<longleftrightarrow> \<bar>c\<bar> < 50"
  using abs_pawns_less [of c 50] by simp

lemma pawns_three_halves: "\<bar>(of_int c :: rat) / 100\<bar> < 3 / 2 \<longleftrightarrow> \<bar>c\<bar> < 150"
  using abs_pawns_less [of c 150] by simp

lemma pawns_three: "\<bar>(of_int c :: rat) / 100\<bar> < 3 \<longleftrightarrow> \<bar>c\<bar> < 300"
  using abs_pawns_less [of c 300] by simp

lemma pawns_positive: "0 < (of_int c :: rat) / 100 \<longleftrightarrow> 0 < c"
  by simp

lemma format_evaluation_cases:
  "format_evaluation cp =
     (if \<bar>cp\<bar> < 50 then ''Equal position''
      else (if \<bar>cp\<bar> < 150 then ''Slight advantage for ''
            else if \<bar>cp\<bar> < 300 then ''Clear advantage for '' else ''Winning for '')
           @ (if 0 < cp then ''white'' else ''black'') @ '' ('' @ fmt_pawns cp @ '')'')"
  unfolding format_evaluation_def Let_def pawns_half pawns_three_halves pawns_three pawns_positive
  by simp

lemmas render_simps = fmt_pawns_def str_nat.simps digit_char_def

text \<open>
  C3. The text for a centipawn score is decided by the absolute score in pawns on
  half-open intervals: below 0.5 (50 centipawns) it is \<open>Equal position\<close>; from 0.5 and
  below 1.5 the slight-advantage text; from 1.5 and below 3.0 the clear-advantage text;
  from 3.0 the winning text. The side named is white for a positive score and black
  otherwise, and the text ends with the signed score in pawns. This is stated for scores
  below \<open>10^15\<close> centipawns in magnitude, where the printed double has the digits of
  the score. At the boundaries: 50 is a slight advantage for white and 49 is equal, 150
  is a clear advantage and 149 a slight one, 300 is winning and 299 a clear advantage.
\<close>

theorem format_evaluation_thresholds:
  "(\<bar>cp\<bar> < 10 ^ 15 \<longrightarrow>
      format_evaluation cp =
        (if \<bar>cp\<bar> < 50 then ''Equal position''
         else (if \<bar>cp\<bar> < 150 then ''Slight advantage for ''
               else if \<bar>cp\<bar> < 300 then ''Clear advantage for '' else ''Winning for '')
              @ (if 0 < cp then ''white'' else ''black'') @ '' ('' @ fmt_pawns cp @ '')''))
   \<and> format_evaluation 50 = ''Slight advantage for white (+0.50)''
   \<and> format_evaluation 49 = ''Equal position''
   \<and> format_evaluation 150 = ''Clear advantage for white (+1.50)''
   \<and> format_evaluation 149 = ''Slight advantage for white (+1.49)''
   \<and> format_evaluation 300 = ''Winning for white (+3.00)''
   \<and> format_evaluation 299 = ''Clear advantage for white (+2.99)''
   \<and> format_evaluation (- 50) = ''Slight advantage for black (-0.50)''
   \<and> format_evaluation (- 49) = ''Equal position''
   \<and> format_evaluation (- 300) = ''Winning for black (-3.00)''"
proof -
  have general: "\<bar>cp\<bar> < 10 ^ 15 \<longrightarrow> format_evaluation cp =
     (if \<bar>cp\<bar> < 50 then ''Equal position''
      else (if \<bar>cp\<bar> < 150 then ''Slight advantage for ''
            else if \<bar>cp\<bar> < 300 then ''Clear advantage for '' else ''Winning for '')
           @ (if 0 < cp then ''white'' else ''black'') @ '' ('' @ fmt_pawns cp @ '')'')"
    using format_evaluation_cases [of cp] by (rule impI)
  have b50: "format_evaluation 50 = ''Slight advantage for white (+0.50)''"
    by (simp add: format_evaluation_cases render_simps)
  have b49: "format_evaluation 49 = ''Equal position''"
    by (simp add: format_evaluation_cases)
  have b150: "format_evaluation 150 = ''Clear advantage for white (+1.50)''"
    by (simp add: format_evaluation_cases render_simps)
  have b149: "format_evaluation 149 = ''Slight advantage for white (+1.49)''"
    by (simp add: format_evaluation_cases render_simps)
  have b300: "format_evaluation 300 = ''Winning for white (+3.00)''"
    by (simp add: format_evaluation_cases render_simps)
  have b299: "format_evaluation 299 = ''Clear advantage for white (+2.99)''"
    by (simp add: format_evaluation_cases render_simps)
  have n50: "format_evaluation (- 50) = ''Slight advantage for black (-0.50)''"
    by (simp add: format_evaluation_cases render_simps)
  have n49: "format_evaluation (- 49) = ''Equal position''"
    by (simp add: format_evaluation_cases)
  have n300: "format_evaluation (- 300) = ''Winning for black (-3.00)''"
    by (simp add: format_evaluation_cases render_simps)
  from general b50 b49 b150 b149 b300 b299 n50 n49 n300 show ?thesis
    by (intro conjI)
qed

theorem format_evaluation_thresholds_witness:
  "\<bar>- 175 :: int\<bar> < 10 ^ 15
   \<and> format_evaluation (- 175) = ''Clear advantage for black (-1.75)''
   \<and> \<bar>12345 :: int\<bar> < 10 ^ 15
   \<and> format_evaluation 12345 = ''Winning for white (+123.45)''"
proof -
  have h1: "\<bar>- 175 :: int\<bar> < 10 ^ 15" by simp
  have h2: "\<bar>12345 :: int\<bar> < 10 ^ 15" by simp
  have f1: "fmt_pawns (- 175) = ''-1.75''" by (simp add: render_simps)
  have f2: "fmt_pawns 12345 = ''+123.45''" by (simp add: render_simps)
  from format_evaluation_thresholds [of "- 175"] h1
  have e1: "format_evaluation (- 175) = ''Clear advantage for black (-1.75)''"
    by (simp add: f1)
  from format_evaluation_thresholds [of 12345] h2
  have e2: "format_evaluation 12345 = ''Winning for white (+123.45)''"
    by (simp add: f2)
  from h1 e1 h2 e2 show ?thesis by (intro conjI)
qed

section \<open>Single-position evaluation\<close>

lemma neg_score_involution: "neg_score (neg_score s) = s"
  by (cases s) auto

lemma normalized_is_relative:
  "pov_turn ps = t \<Longrightarrow> (if t = BLACK then neg_score (white ps) else white ps) = relative ps"
  by (cases t) (auto simp: white_def pov_def neg_score_involution)

lemma store_score_returns: "\<exists>r. store_score t ps result = Inr r"
proof (cases "if t = BLACK then neg_score (white ps) else white ps")
  case (Cp c) then show ?thesis by (simp add: store_score_def Let_def)
next
  case (Mate m) then show ?thesis by (simp add: store_score_def Let_def)
next
  case MateGiven then show ?thesis by (simp add: store_score_def Let_def)
qed

lemma build_result_returns: "\<exists>r. build_result R fen board info = Inr r"
proof (cases "info_score info")
  case None then show ?thesis by (simp add: build_result_def Let_def)
next
  case (Some ps)
  obtain r where "store_score (turn_of R (cur board)) ps
      [''fen'' \<mapsto> PStr fen, ''depth'' \<mapsto> (case info_depth info of None \<Rightarrow> PNone | Some d \<Rightarrow> PInt d)] = Inr r"
    using store_score_returns by blast
  with Some show ?thesis by (simp add: build_result_def Let_def)
qed

lemma evaluate_position_started:
  "engine self = Some analyse \<Longrightarrow> parse_fen R fen = Inr p \<Longrightarrow>
   evaluate_position R self fen d t =
     build_result R fen (new_board p) (analyse p (analysis_limit self d t))"
  by (simp add: evaluate_position_def Let_def new_board_def)

subsection \<open>The instance satisfies what is assumed of the rules\<close>

lemma ply_parse: "parse_fen ply_rules (fen_of ply_rules p) = Inr p"
  by (simp add: ply_rules_def)

lemma ply_contracts: "descriptors_parse ply_rules" "legal_moves_apply ply_rules"
  by (simp_all add: descriptors_parse_def legal_moves_apply_def ply_rules_def)

lemma ply_render: "legal_moves_render ply_rules"
  by (simp add: legal_moves_render_def ply_rules_def)

lemma halt_started: "engine halt_evaluator = Some halt_engine"
  by (simp add: halt_evaluator_def enter_def init_def)

lemma lax_started: "engine lax_evaluator = Some lax_engine" "depth lax_evaluator = 20"
  by (simp_all add: lax_evaluator_def enter_def init_def)

lemma lax_fields:
  "parse_fen lax_rules = parse_fen ply_rules"
  "fen_of lax_rules = fen_of ply_rules"
  "turn_of lax_rules = turn_of ply_rules"
  "uci_of lax_rules = uci_of ply_rules"
  "is_legal lax_rules = is_legal ply_rules"
  "apply_move lax_rules = apply_move ply_rules"
  "san_of lax_rules p m = (if m = 0 then Some ''a2'' else Some ''h2'')"
  by (simp_all add: lax_rules_def)

lemma ply_started: "engine ply_evaluator = Some ply_engine" "depth ply_evaluator = 20"
  by (simp_all add: ply_evaluator_def enter_def init_def)

lemma ply_fen0: "parse_fen ply_rules ''ply'' = Inr 0"
  by (simp add: ply_rules_def)

lemma ply_fen1: "parse_fen ply_rules ''ply+'' = Inr 1"
  by (simp add: ply_rules_def)

lemma ply_fields:
  "starting ply_rules = 0"
  "fen_of ply_rules p = ''ply'' @ replicate p CHR ''+''"
  "turn_of ply_rules p = (if even p then WHITE else BLACK)"
  "from_uci ply_rules s = (if s = ''a1a2'' then Inr 0 else if s = ''h1h2'' then Inr 1 else Inl ''invalid uci'')"
  "uci_of ply_rules m = (if m = 0 then ''a1a2'' else ''h1h2'')"
  "is_legal ply_rules p m = (m = 0)"
  "apply_move ply_rules p m = Some (Suc p)"
  "san_of ply_rules p m = (if m = 0 then Some ''a2'' else None)"
  by (simp_all add: ply_rules_def)

lemma ply_pv_san: "pv_san_loop ply_rules b acc (replicate n 0) = acc @ replicate n ''a2''"
  by (induction n arbitrary: b acc) (simp_all add: ply_fields push_def replicate_app_Cons_same)

lemma ply_legal_line: "legal_line ply_rules p (replicate n 0)"
  by (induction n arbitrary: p) (simp_all add: ply_fields)

lemma ply_store_score:
  "store_score (turn_of ply_rules p) \<lparr>relative = Cp 100, pov_turn = turn_of ply_rules p\<rparr> result =
     Inr (result(''score'' \<mapsto> PInt 100, ''mate'' \<mapsto> PNone,
                 ''evaluation_text'' \<mapsto> PStr ''Slight advantage for white (+1.00)''))"
  by (simp add: store_score_def white_def pov_def ply_fields format_evaluation_cases render_simps)

lemma ply_store_pv:
  "store_pv ply_rules (new_board p) (Some (replicate 11 0)) result =
     result(''best_move'' \<mapsto> PStr ''a1a2'', ''pv'' \<mapsto> PList (replicate 11 ''a1a2''),
            ''pv_san'' \<mapsto> PList (replicate 10 ''a2''))"
proof -
  have line: "replicate 11 (0::nat) = 0 # replicate 10 0"
    by (simp add: numeral_eq_Suc)
  have pv: "pv_san_loop ply_rules (new_board p) [] (take 10 (0 # replicate 10 0)) = replicate 10 ''a2''"
    using ply_pv_san [of "new_board p" "[]" 10] by (simp add: numeral_eq_Suc)
  have names: "map (uci_of ply_rules) (0 # replicate 10 0) = replicate 11 ''a1a2''"
    by (simp add: ply_fields numeral_eq_Suc)
  show ?thesis
    unfolding store_pv_def line
    by (simp only: option.case list.case pv names ply_fields refl if_True)
qed

lemma ply_build_result:
  "build_result ply_rules fen (new_board p) (ply_engine p (Limit_depth d)) =
     Inr [''fen'' \<mapsto> PStr fen, ''depth'' \<mapsto> PInt d,
          ''score'' \<mapsto> PInt 100, ''mate'' \<mapsto> PNone,
          ''evaluation_text'' \<mapsto> PStr ''Slight advantage for white (+1.00)'',
          ''best_move'' \<mapsto> PStr ''a1a2'',
          ''pv'' \<mapsto> PList (replicate 11 ''a1a2''),
          ''pv_san'' \<mapsto> PList (replicate 10 ''a2'')]"
proof -
  have eng: "ply_engine p (Limit_depth d) =
      \<lparr>info_score = Some \<lparr>relative = Cp 100, pov_turn = turn_of ply_rules p\<rparr>,
       info_depth = Some d, info_pv = Some (replicate 11 0)\<rparr>"
    by (simp add: ply_engine_def ply_fields)
  have cur: "cur (new_board p) = p" by (simp add: new_board_def)
  show ?thesis
    unfolding build_result_def eng Let_def
    by (simp add: cur ply_store_score ply_store_pv)
qed

lemma ply_evaluate:
  "evaluate_position ply_rules ply_evaluator (fen_of ply_rules p) None None =
     Inr [''fen'' \<mapsto> PStr (fen_of ply_rules p), ''depth'' \<mapsto> PInt 20,
          ''score'' \<mapsto> PInt 100, ''mate'' \<mapsto> PNone,
          ''evaluation_text'' \<mapsto> PStr ''Slight advantage for white (+1.00)'',
          ''best_move'' \<mapsto> PStr ''a1a2'',
          ''pv'' \<mapsto> PList (replicate 11 ''a1a2''),
          ''pv_san'' \<mapsto> PList (replicate 10 ''a2'')]"
proof -
  have lim: "analysis_limit ply_evaluator None None = Limit_depth 20"
    by (simp add: analysis_limit_def ply_started)
  show ?thesis
    unfolding evaluate_position_started [OF ply_started(1) ply_parse] lim
    by (rule ply_build_result)
qed

lemma lax_evaluate:
  "evaluate_position lax_rules lax_evaluator ''ply'' None None =
     Inr [''fen'' \<mapsto> PStr ''ply'', ''depth'' \<mapsto> PInt 20,
          ''score'' \<mapsto> PInt 100, ''mate'' \<mapsto> PNone,
          ''evaluation_text'' \<mapsto> PStr ''Slight advantage for white (+1.00)'',
          ''best_move'' \<mapsto> PStr ''h1h2'',
          ''pv'' \<mapsto> PList [''h1h2'', ''a1a2''],
          ''pv_san'' \<mapsto> PList [''h2'', ''a2'']]"
proof -
  have parse: "parse_fen lax_rules ''ply'' = Inr 0"
    unfolding lax_fields by (rule ply_fen0)
  have lim: "analysis_limit lax_evaluator None None = Limit_depth 20"
    by (simp add: analysis_limit_def lax_started)
  have eng: "lax_engine 0 (Limit_depth 20) =
      \<lparr>info_score = Some \<lparr>relative = Cp 100, pov_turn = turn_of ply_rules 0\<rparr>,
       info_depth = Some 20, info_pv = Some [1, 0]\<rparr>"
    by (simp add: lax_engine_def ply_engine_def ply_fields)
  have cur: "cur (new_board (0::nat)) = 0" by (simp add: new_board_def)
  have san: "pv_san_loop lax_rules (new_board 0) [] [1, 0] = [''h2'', ''a2'']"
    by (simp add: lax_fields ply_fields push_def)
  have tk: "take 10 [1, 0::nat] = [1, 0]" by simp
  have names: "map (uci_of lax_rules) [1, 0] = [''h1h2'', ''a1a2'']"
    by (simp add: lax_fields ply_fields)
  have name: "uci_of lax_rules 1 = ''h1h2''"
    by (simp add: lax_fields ply_fields)
  have pv: "store_pv lax_rules (new_board 0) (Some [1, 0]) result =
      result(''best_move'' \<mapsto> PStr ''h1h2'', ''pv'' \<mapsto> PList [''h1h2'', ''a1a2''],
             ''pv_san'' \<mapsto> PList [''h2'', ''a2''])" for result
    unfolding store_pv_def
    by (simp only: option.case list.case tk san names name)
  show ?thesis
    unfolding evaluate_position_started [OF lax_started(1) parse] lim
    unfolding build_result_def eng Let_def
    by (simp add: cur lax_fields ply_store_score pv del: One_nat_def)
qed

subsection \<open>Engine not started\<close>

text \<open>
  C8. When the engine has not been started (\<open>self.engine\<close> is \<open>None\<close>),
  \<open>evaluate_position\<close> raises the \<open>RuntimeError\<close> "Engine not started" for every
  descriptor, depth and time limit, before it looks at any of them. The method assigns
  no field of the object, so the engine is not started by the call.
\<close>

theorem evaluate_position_engine_not_started:
  "engine self = None \<Longrightarrow>
   evaluate_position R self fen depth_arg time_limit =
     Inl (RuntimeError ''Engine not started. Use 'with' statement or call start_engine()'')"
  by (simp add: evaluate_position_def)

theorem evaluate_position_engine_not_started_witness:
  "engine (init ''stockfish'' 20 :: (nat, nat) evaluator) = None \<and>
   evaluate_position ply_rules (init ''stockfish'' 20) ''ply'' None None =
     Inl (RuntimeError ''Engine not started. Use 'with' statement or call start_engine()'')"
proof -
  have h: "engine (init ''stockfish'' 20 :: (nat, nat) evaluator) = None" by (simp add: init_def)
  from h evaluate_position_engine_not_started [OF h] show ?thesis by simp
qed

subsection \<open>The analysis limit\<close>

text \<open>
  C9. For a started engine and a descriptor that parses: a time budget (a positive
  number of seconds) takes precedence over any depth, and the engine is asked with that
  time limit; when neither a time limit nor a depth is given, the engine is asked with
  the default depth of the object.
\<close>

theorem analysis_limit_resolution:
  assumes "engine self = Some analyse" and "parse_fen R fen = Inr p"
  shows "(0 < t \<longrightarrow>
            analysis_limit self d (Some t) = Limit_time t \<and>
            evaluate_position R self fen d (Some t) =
              build_result R fen (new_board p) (analyse p (Limit_time t)))
       \<and> analysis_limit self None None = Limit_depth (depth self)
       \<and> evaluate_position R self fen None None =
              build_result R fen (new_board p) (analyse p (Limit_depth (depth self)))"
  using assms by (simp add: evaluate_position_started analysis_limit_def)

theorem analysis_limit_resolution_witness:
  "engine ply_evaluator = Some ply_engine \<and> parse_fen ply_rules ''ply'' = Inr 0 \<and> (0::rat) < 3
   \<and> analysis_limit ply_evaluator (Some 5) (Some 3) = Limit_time 3
   \<and> evaluate_position ply_rules ply_evaluator ''ply'' (Some 5) (Some 3) =
         build_result ply_rules ''ply'' (new_board 0) (ply_engine 0 (Limit_time 3))
   \<and> analysis_limit ply_evaluator None None = Limit_depth 20
   \<and> evaluate_position ply_rules ply_evaluator ''ply'' None None =
         build_result ply_rules ''ply'' (new_board 0) (ply_engine 0 (Limit_depth 20))"
  using analysis_limit_resolution [OF ply_started(1) ply_fen0, of 3 "Some 5"]
  by (simp add: ply_started ply_fen0)

text \<open>
  C10. The choice follows the truth value of the arguments, not whether they are
  \<open>None\<close>. A non-zero time limit gives a time limit, whatever the depth; a time limit
  of zero is treated as no time limit: the limit is a depth, the same as without a time
  limit, and the evaluation is the same. A non-zero depth is then the depth of the
  limit; a depth of zero is treated as no depth: the default depth of the object is
  used. The engine is asked with the limit so chosen.
\<close>

theorem analysis_limit_truthiness:
  "(t \<noteq> 0 \<longrightarrow> analysis_limit self d (Some t) = Limit_time t)
   \<and> (k \<noteq> 0 \<longrightarrow> analysis_limit self (Some k) None = Limit_depth k
                 \<and> analysis_limit self (Some k) (Some 0) = Limit_depth k)
   \<and> analysis_limit self d (Some 0) = analysis_limit self d None
   \<and> (\<exists>j. analysis_limit self d (Some 0) = Limit_depth j)
   \<and> analysis_limit self (Some 0) None = Limit_depth (depth self)
   \<and> analysis_limit self None None = Limit_depth (depth self)
   \<and> analysis_limit self (Some 0) (Some 0) = Limit_depth (depth self)
   \<and> (engine self = Some analyse \<and> parse_fen R fen = Inr p \<longrightarrow>
         evaluate_position R self fen d time_limit =
           build_result R fen (new_board p) (analyse p (analysis_limit self d time_limit)))
   \<and> evaluate_position R self fen d (Some 0) = evaluate_position R self fen d None
   \<and> evaluate_position R self fen (Some 0) time_limit = evaluate_position R self fen None time_limit"
proof -
  have nz: "t \<noteq> 0 \<longrightarrow> analysis_limit self d (Some t) = Limit_time t"
    by (simp add: analysis_limit_def)
  have dk: "k \<noteq> 0 \<longrightarrow> analysis_limit self (Some k) None = Limit_depth k
                 \<and> analysis_limit self (Some k) (Some 0) = Limit_depth k"
    by (simp add: analysis_limit_def)
  have t0: "analysis_limit self d (Some 0) = analysis_limit self d None"
    by (simp add: analysis_limit_def)
  have d0: "analysis_limit self (Some 0) tl = analysis_limit self None tl" for tl
    by (simp add: analysis_limit_def split: option.splits)
  have dep: "\<exists>j. analysis_limit self d (Some 0) = Limit_depth j"
    by (simp add: analysis_limit_def)
  have dflt: "analysis_limit self (Some 0) None = Limit_depth (depth self)"
    by (simp add: analysis_limit_def)
  have dflt2: "analysis_limit self None None = Limit_depth (depth self)"
    by (simp add: analysis_limit_def)
  have dflt3: "analysis_limit self (Some 0) (Some 0) = Limit_depth (depth self)"
    by (simp add: analysis_limit_def)
  have req: "engine self = Some analyse \<and> parse_fen R fen = Inr p \<longrightarrow>
         evaluate_position R self fen d time_limit =
           build_result R fen (new_board p) (analyse p (analysis_limit self d time_limit))"
    by (simp add: evaluate_position_started)
  have e1: "evaluate_position R self fen d (Some 0) = evaluate_position R self fen d None"
    unfolding evaluate_position_def t0 ..
  have e2: "evaluate_position R self fen (Some 0) time_limit =
            evaluate_position R self fen None time_limit"
    unfolding evaluate_position_def d0 ..
  from nz dk t0 dep dflt dflt2 dflt3 req e1 e2 show ?thesis by (intro conjI)
qed

theorem analysis_limit_truthiness_witness:
  "(3::rat) \<noteq> 0 \<and> (5::int) \<noteq> 0
   \<and> engine ply_evaluator = Some ply_engine \<and> parse_fen ply_rules ''ply'' = Inr 0
   \<and> analysis_limit ply_evaluator (Some 5) (Some 3) = Limit_time 3
   \<and> analysis_limit ply_evaluator (Some 5) None = Limit_depth 5
   \<and> analysis_limit ply_evaluator (Some 5) (Some 0) = Limit_depth 5
   \<and> analysis_limit ply_evaluator (Some 0) (Some 0) = Limit_depth 20
   \<and> evaluate_position ply_rules ply_evaluator ''ply'' (Some 5) (Some 0) =
         build_result ply_rules ''ply'' (new_board 0) (ply_engine 0 (Limit_depth 5))"
proof -
  note inst = analysis_limit_truthiness
    [of 3 ply_evaluator "Some 5" 5 ply_engine ply_rules "''ply''" 0 "Some 0"]
  have n3: "(3::rat) \<noteq> 0" by simp
  have n5: "(5::int) \<noteq> 0" by simp
  have a: "analysis_limit ply_evaluator (Some 5) (Some 3) = Limit_time 3"
    using inst [THEN conjunct1] n3 by (rule mp)
  have bc: "analysis_limit ply_evaluator (Some 5) None = Limit_depth 5
            \<and> analysis_limit ply_evaluator (Some 5) (Some 0) = Limit_depth 5"
    using inst [THEN conjunct2, THEN conjunct1] n5 by (rule mp)
  have d: "analysis_limit ply_evaluator (Some 0) (Some 0) = Limit_depth 20"
    using inst [THEN conjunct2, THEN conjunct2, THEN conjunct2, THEN conjunct2,
                THEN conjunct2, THEN conjunct2, THEN conjunct1]
    unfolding ply_started(2) .
  have pre: "engine ply_evaluator = Some ply_engine \<and> parse_fen ply_rules ''ply'' = Inr 0"
    using ply_started(1) ply_fen0 by (rule conjI)
  have e: "evaluate_position ply_rules ply_evaluator ''ply'' (Some 5) (Some 0) =
         build_result ply_rules ''ply'' (new_board 0)
           (ply_engine 0 (analysis_limit ply_evaluator (Some 5) (Some 0)))"
    using inst [THEN conjunct2, THEN conjunct2, THEN conjunct2, THEN conjunct2,
                THEN conjunct2, THEN conjunct2, THEN conjunct2, THEN conjunct1] pre
    by (rule mp)
  have e': "evaluate_position ply_rules ply_evaluator ''ply'' (Some 5) (Some 0) =
         build_result ply_rules ''ply'' (new_board 0) (ply_engine 0 (Limit_depth 5))"
    using e unfolding bc [THEN conjunct2] .
  from n3 n5 ply_started(1) ply_fen0 a bc [THEN conjunct1] bc [THEN conjunct2] d e'
  show ?thesis by (intro conjI)
qed

subsection \<open>The perspective of the stored score\<close>

text \<open>
  C1. The engine reports a score relative to the side to move, and \<open>white()\<close> already
  turns it to White's point of view; \<open>evaluate_position\<close> negates that once more when
  Black is to move. So with Black to move the stored value is the raw value, not its
  negation: a raw score of 100 centipawns for Black is stored as 100 and described as an
  advantage for white, exactly as the same raw score with White to move is, and a raw
  mate in 3 for Black is stored as 3 and described as a mate for white. (In the instance, the position \<open>ply+\<close> has Black to move and the
  engine reports 100 centipawns for the side to move.)
\<close>

theorem black_to_move_score_not_negated:
  "turn_of ply_rules 1 = BLACK
   \<and> evaluate_position ply_rules ply_evaluator ''ply+'' None None =
     Inr [''fen'' \<mapsto> PStr ''ply+'', ''depth'' \<mapsto> PInt 20,
          ''score'' \<mapsto> PInt 100, ''mate'' \<mapsto> PNone,
          ''evaluation_text'' \<mapsto> PStr ''Slight advantage for white (+1.00)'',
          ''best_move'' \<mapsto> PStr ''a1a2'',
          ''pv'' \<mapsto> PList (replicate 11 ''a1a2''),
          ''pv_san'' \<mapsto> PList (replicate 10 ''a2'')]
   \<and> store_score BLACK \<lparr>relative = Cp 100, pov_turn = BLACK\<rparr> Map.empty =
       Inr [''score'' \<mapsto> PInt 100, ''mate'' \<mapsto> PNone,
            ''evaluation_text'' \<mapsto> PStr ''Slight advantage for white (+1.00)'']
   \<and> store_score WHITE \<lparr>relative = Cp 100, pov_turn = WHITE\<rparr> Map.empty =
       Inr [''score'' \<mapsto> PInt 100, ''mate'' \<mapsto> PNone,
            ''evaluation_text'' \<mapsto> PStr ''Slight advantage for white (+1.00)'']
   \<and> store_score BLACK \<lparr>relative = Mate 3, pov_turn = BLACK\<rparr> Map.empty =
       Inr [''mate'' \<mapsto> PInt 3, ''score'' \<mapsto> PNone,
            ''evaluation_text'' \<mapsto> PStr ''Mate in 3 for white'']"
proof -
  have t: "turn_of ply_rules 1 = BLACK" by (simp add: ply_fields)
  have w: "store_score WHITE \<lparr>relative = Cp 100, pov_turn = WHITE\<rparr> Map.empty =
       Inr [''score'' \<mapsto> PInt 100, ''mate'' \<mapsto> PNone,
            ''evaluation_text'' \<mapsto> PStr ''Slight advantage for white (+1.00)'']"
    by (simp add: store_score_def white_def pov_def format_evaluation_cases render_simps)
  have f: "fen_of ply_rules 1 = ''ply+''" by (simp add: ply_fields)
  have e: "evaluate_position ply_rules ply_evaluator ''ply+'' None None =
     Inr [''fen'' \<mapsto> PStr ''ply+'', ''depth'' \<mapsto> PInt 20,
          ''score'' \<mapsto> PInt 100, ''mate'' \<mapsto> PNone,
          ''evaluation_text'' \<mapsto> PStr ''Slight advantage for white (+1.00)'',
          ''best_move'' \<mapsto> PStr ''a1a2'',
          ''pv'' \<mapsto> PList (replicate 11 ''a1a2''),
          ''pv_san'' \<mapsto> PList (replicate 10 ''a2'')]"
    using ply_evaluate [of 1] unfolding f .
  have c: "store_score BLACK \<lparr>relative = Cp 100, pov_turn = BLACK\<rparr> Map.empty =
       Inr [''score'' \<mapsto> PInt 100, ''mate'' \<mapsto> PNone,
            ''evaluation_text'' \<mapsto> PStr ''Slight advantage for white (+1.00)'']"
    by (simp add: store_score_def white_def pov_def format_evaluation_cases render_simps)
  have m: "store_score BLACK \<lparr>relative = Mate 3, pov_turn = BLACK\<rparr> Map.empty =
       Inr [''mate'' \<mapsto> PInt 3, ''score'' \<mapsto> PNone,
            ''evaluation_text'' \<mapsto> PStr ''Mate in 3 for white'']"
    by (simp add: store_score_def white_def pov_def render_simps)
  from t e c w m show ?thesis by (intro conjI)
qed

subsection \<open>The principal variation\<close>

lemma pv_san_loop_length_le:
  "length (pv_san_loop R b acc ms) \<le> length acc + length ms"
proof (induction ms arbitrary: b acc)
  case Nil
  show ?case by simp
next
  case (Cons m ms)
  show ?case
  proof (cases "san_of R (cur b) m")
    case None
    then show ?thesis by simp
  next
    case (Some s)
    show ?thesis
    proof (cases "push R b m")
      case (Inl e)
      with Some show ?thesis by simp
    next
      case (Inr b')
      from Cons.IH [of b' "acc @ [s]"] Some Inr show ?thesis by simp
    qed
  qed
qed

lemma pv_san_loop_acc:
  "pv_san_loop R b acc ms = acc @ pv_san_loop R b [] ms"
proof (induction ms arbitrary: b acc)
  case Nil
  show ?case by simp
next
  case (Cons m ms)
  show ?case
  proof (cases "san_of R (cur b) m")
    case None
    then show ?thesis by simp
  next
    case (Some s)
    show ?thesis
    proof (cases "push R b m")
      case (Inl e)
      with Some show ?thesis by simp
    next
      case (Inr b')
      from Cons.IH [of b' "acc @ [s]"] Cons.IH [of b' "[s]"] Some Inr
      show ?thesis by simp
    qed
  qed
qed

lemma pv_san_loop_legal_prefix:
  assumes "legal_moves_render R"
  shows "legal_line R (cur b) (take k ms) \<Longrightarrow> k \<le> length ms \<Longrightarrow>
         k \<le> length (pv_san_loop R b [] ms)
         \<and> (\<forall>i<k. \<exists>q. play R (cur b) (take i ms) = Some q
                    \<and> san_of R q (ms ! i) = Some (pv_san_loop R b [] ms ! i))"
proof (induction ms arbitrary: b k)
  case Nil
  then show ?case by simp
next
  case (Cons m ms)
  show ?case
  proof (cases k)
    case 0
    then show ?thesis by simp
  next
    case (Suc j)
    with Cons.prems have legal: "is_legal R (cur b) m" by simp
    from Cons.prems Suc obtain p' where
      p': "apply_move R (cur b) m = Some p'" and rest: "legal_line R p' (take j ms)"
      by (cases "apply_move R (cur b) m") auto
    from legal assms obtain s where s: "san_of R (cur b) m = Some s"
      unfolding legal_moves_render_def by fastforce
    let ?b = "\<lparr>cur = p', saved = cur b # saved b\<rparr>"
    have psh: "push R b m = Inr ?b" using p' by (simp add: push_def)
    have loop: "pv_san_loop R b [] (m # ms) = s # pv_san_loop R ?b [] ms"
      using s psh pv_san_loop_acc [of R ?b "[s]" ms] by simp
    from Cons.prems Suc have j: "j \<le> length ms" by simp
    from Cons.IH [of ?b j] rest j have
      ih1: "j \<le> length (pv_san_loop R ?b [] ms)"
      and ih2: "\<forall>i<j. \<exists>q. play R p' (take i ms) = Some q
                    \<and> san_of R q (ms ! i) = Some (pv_san_loop R ?b [] ms ! i)"
      by simp_all
    have len: "k \<le> length (pv_san_loop R b [] (m # ms))"
      using ih1 Suc unfolding loop by simp
    have entries: "\<forall>i<k. \<exists>q. play R (cur b) (take i (m # ms)) = Some q
                    \<and> san_of R q ((m # ms) ! i) = Some (pv_san_loop R b [] (m # ms) ! i)"
    proof (intro allI impI)
      fix i assume i: "i < k"
      show "\<exists>q. play R (cur b) (take i (m # ms)) = Some q
                    \<and> san_of R q ((m # ms) ! i) = Some (pv_san_loop R b [] (m # ms) ! i)"
      proof (cases i)
        case 0
        with s show ?thesis unfolding loop by simp
      next
        case (Suc i')
        with i \<open>k = Suc j\<close> have "i' < j" by simp
        with ih2 obtain q where "play R p' (take i' ms) = Some q"
          "san_of R q (ms ! i') = Some (pv_san_loop R ?b [] ms ! i')" by blast
        with Suc p' show ?thesis unfolding loop by simp
      qed
    qed
    from len entries show ?thesis by (rule conjI)
  qed
qed

lemma pv_san_loop_stops:
  assumes "legal_moves_render R"
  shows "legal_line R (cur b) (take k ms) \<Longrightarrow> k < length ms \<Longrightarrow>
         play R (cur b) (take k ms) = Some q \<Longrightarrow> san_of R q (ms ! k) = None \<Longrightarrow>
         length (pv_san_loop R b [] ms) = k"
proof (induction ms arbitrary: b k)
  case Nil
  then show ?case by simp
next
  case (Cons m ms)
  show ?case
  proof (cases k)
    case 0
    with Cons.prems show ?thesis by simp
  next
    case (Suc j)
    with Cons.prems have legal: "is_legal R (cur b) m" by simp
    from Cons.prems Suc obtain p' where
      p': "apply_move R (cur b) m = Some p'" and rest: "legal_line R p' (take j ms)"
      by (cases "apply_move R (cur b) m") auto
    from legal assms obtain s where s: "san_of R (cur b) m = Some s"
      unfolding legal_moves_render_def by fastforce
    let ?b = "\<lparr>cur = p', saved = cur b # saved b\<rparr>"
    have psh: "push R b m = Inr ?b" using p' by (simp add: push_def)
    have loop: "pv_san_loop R b [] (m # ms) = s # pv_san_loop R ?b [] ms"
      using s psh pv_san_loop_acc [of R ?b "[s]" ms] by simp
    from Cons.prems Suc p' have
      j: "j < length ms" and pl: "play R p' (take j ms) = Some q"
      and sn: "san_of R q (ms ! j) = None"
      by simp_all
    from Cons.IH [of ?b j] rest j pl sn have "length (pv_san_loop R ?b [] ms) = j" by simp
    with Suc show ?thesis unfolding loop by simp
  qed
qed

lemma build_result_pv:
  assumes "info_pv info = Some line" and "line \<noteq> []"
  shows "\<exists>res. build_result R fen board info = Inr res
            \<and> res ''pv'' = Some (PList (map (uci_of R) line))
            \<and> res ''pv_san'' = Some (PList (pv_san_loop R board [] (take 10 line)))"
proof -
  obtain first others where line: "line = first # others"
    using assms(2) by (cases line) auto
  let ?r0 = "[''fen'' \<mapsto> PStr fen,
              ''depth'' \<mapsto> (case info_depth info of None \<Rightarrow> PNone | Some d \<Rightarrow> PInt d)]"
  have "\<exists>r. (case info_score info of None \<Rightarrow> Inr ?r0
                   | Some ps \<Rightarrow> store_score (turn_of R (cur board)) ps ?r0) = Inr r"
  proof (cases "info_score info")
    case None
    then show ?thesis by simp
  next
    case (Some ps)
    with store_score_returns [of "turn_of R (cur board)" ps ?r0] show ?thesis by simp
  qed
  then obtain r where r: "(case info_score info of None \<Rightarrow> Inr ?r0
                      | Some ps \<Rightarrow> store_score (turn_of R (cur board)) ps ?r0) = Inr r"
    by blast
  have "build_result R fen board info = Inr (store_pv R board (Some line) r)"
    unfolding build_result_def Let_def r assms(1) by simp
  then show ?thesis
    by (simp add: store_pv_def line)
qed

text \<open>
  C2, as the claim states it, fails. Only the first ten moves of the line are rendered:
  for a line of eleven moves, each legal where it is played, the algebraic list has ten
  entries and the long-notation list eleven. And the loop does not ask whether a move is
  legal, it stops when \<open>san\<close> or \<open>push\<close> raises: with a \<open>san\<close> that renders a move
  that is not legal (the one of the chess library raises only when no piece stands on
  the origin square), the algebraic list is as long as the line although its first move
  is not legal.
\<close>

theorem pv_san_capped_counterexample:
  "info_pv (ply_engine 0 (Limit_depth 20)) = Some (replicate 11 0)
   \<and> legal_line ply_rules 0 (replicate 11 0)
   \<and> evaluate_position ply_rules ply_evaluator ''ply'' None None =
       Inr [''fen'' \<mapsto> PStr ''ply'', ''depth'' \<mapsto> PInt 20,
            ''score'' \<mapsto> PInt 100, ''mate'' \<mapsto> PNone,
            ''evaluation_text'' \<mapsto> PStr ''Slight advantage for white (+1.00)'',
            ''best_move'' \<mapsto> PStr ''a1a2'',
            ''pv'' \<mapsto> PList (replicate 11 ''a1a2''),
            ''pv_san'' \<mapsto> PList (replicate 10 ''a2'')]
   \<and> length (replicate 10 ''a2'') < length (replicate 11 ''a1a2'')
   \<and> info_pv (lax_engine 0 (Limit_depth 20)) = Some [1, 0]
   \<and> \<not> is_legal lax_rules 0 1
   \<and> evaluate_position lax_rules lax_evaluator ''ply'' None None =
       Inr [''fen'' \<mapsto> PStr ''ply'', ''depth'' \<mapsto> PInt 20,
            ''score'' \<mapsto> PInt 100, ''mate'' \<mapsto> PNone,
            ''evaluation_text'' \<mapsto> PStr ''Slight advantage for white (+1.00)'',
            ''best_move'' \<mapsto> PStr ''h1h2'',
            ''pv'' \<mapsto> PList [''h1h2'', ''a1a2''],
            ''pv_san'' \<mapsto> PList [''h2'', ''a2'']]
   \<and> length [''h2'', ''a2''] = length [''h1h2'', ''a1a2'']"
proof -
  have a: "info_pv (ply_engine 0 (Limit_depth 20)) = Some (replicate 11 0)"
    by (simp add: ply_engine_def)
  have f: "fen_of ply_rules 0 = ''ply''" by (simp add: ply_fields)
  have e: "evaluate_position ply_rules ply_evaluator ''ply'' None None =
       Inr [''fen'' \<mapsto> PStr ''ply'', ''depth'' \<mapsto> PInt 20,
            ''score'' \<mapsto> PInt 100, ''mate'' \<mapsto> PNone,
            ''evaluation_text'' \<mapsto> PStr ''Slight advantage for white (+1.00)'',
            ''best_move'' \<mapsto> PStr ''a1a2'',
            ''pv'' \<mapsto> PList (replicate 11 ''a1a2''),
            ''pv_san'' \<mapsto> PList (replicate 10 ''a2'')]"
    using ply_evaluate [of 0] unfolding f .
  have l: "length (replicate 10 ''a2'') < length (replicate 11 ''a1a2'')" by simp
  have b: "info_pv (lax_engine 0 (Limit_depth 20)) = Some [1, 0]"
    by (simp add: lax_engine_def)
  have c: "\<not> is_legal lax_rules 0 1" by (simp add: lax_fields ply_fields)
  have l2: "length [''h2'', ''a2''] = length [''h1h2'', ''a1a2'']" by simp
  from a ply_legal_line [of 0 11] e l b c lax_evaluate l2 show ?thesis
    by (intro conjI)
qed

text \<open>
  C2, amended. For a started engine that reports a non-empty line: the long-notation
  list is the whole line; the algebraic list is never longer than it and has at most ten
  entries; as far as the first ten moves are legal where they are played, each is
  rendered, in the position the replay has reached, so the algebraic list is shorter
  than the first ten moves of the line (the whole line, if that has fewer) only when one
  of them is not legal there; and when the moves before it are legal, the list ends
  before the first move that \<open>san\<close> does not render. What becomes of a move that is not
  legal and that \<open>san\<close> renders is left open. (Stated for rules in which \<open>san\<close>
  renders every legal move.)
\<close>

theorem principal_variation_rendering:
  assumes "legal_moves_render R"
      and "engine self = Some analyse"
      and "parse_fen R fen = Inr p"
      and "info_pv (analyse p (analysis_limit self d t)) = Some line"
      and "line \<noteq> []"
  shows "\<exists>res sans. evaluate_position R self fen d t = Inr res
           \<and> res ''pv'' = Some (PList (map (uci_of R) line))
           \<and> res ''pv_san'' = Some (PList sans)
           \<and> length sans \<le> length line
           \<and> length sans \<le> 10
           \<and> (\<forall>k\<le>min 10 (length line). legal_line R p (take k line) \<longrightarrow>
                 k \<le> length sans
                 \<and> (\<forall>i<k. \<exists>q. play R p (take i line) = Some q
                            \<and> san_of R q (line ! i) = Some (sans ! i)))
           \<and> (legal_line R p (take 10 line) \<longrightarrow> length sans = min 10 (length line))
           \<and> (\<forall>k<min 10 (length line). \<forall>q.
                 legal_line R p (take k line) \<and> play R p (take k line) = Some q
                 \<and> san_of R q (line ! k) = None \<longrightarrow> length sans = k)"
proof -
  let ?ten = "take 10 line"
  let ?sans = "pv_san_loop R (new_board p) [] ?ten"
  have cur: "cur (new_board p) = p" by (simp add: new_board_def)
  from build_result_pv [OF assms(4,5), of R fen "new_board p"] obtain res where
    res: "build_result R fen (new_board p) (analyse p (analysis_limit self d t)) = Inr res"
      "res ''pv'' = Some (PList (map (uci_of R) line))"
      "res ''pv_san'' = Some (PList ?sans)"
    by (elim exE conjE)
  have ev: "evaluate_position R self fen d t = Inr res"
    using res(1) by (simp add: evaluate_position_started [OF assms(2,3)])
  have le: "length ?sans \<le> length ?ten"
    using pv_san_loop_length_le [of R "new_board p" "[]" ?ten] by simp
  have l1: "length ?sans \<le> length line" using le by simp
  have l2: "length ?sans \<le> 10" using le by simp
  have tk: "take k ?ten = take k line" if "k \<le> min 10 (length line)" for k
    using that by (simp add: min_def split: if_splits)
  have nth: "?ten ! i = line ! i" if "i < min 10 (length line)" for i
    using that by simp
  have pre: "\<forall>k\<le>min 10 (length line). legal_line R p (take k line) \<longrightarrow>
                 k \<le> length ?sans
                 \<and> (\<forall>i<k. \<exists>q. play R p (take i line) = Some q
                            \<and> san_of R q (line ! i) = Some (?sans ! i))"
  proof (intro allI impI)
    fix k assume k: "k \<le> min 10 (length line)" and legal: "legal_line R p (take k line)"
    have k': "k \<le> length ?ten" using k by simp
    from legal have "legal_line R (cur (new_board p)) (take k ?ten)"
      unfolding cur tk [OF k] .
    from pv_san_loop_legal_prefix [OF assms(1) this k'] have
      a: "k \<le> length ?sans"
      and b: "\<forall>i<k. \<exists>q. play R p (take i ?ten) = Some q
                    \<and> san_of R q (?ten ! i) = Some (?sans ! i)"
      unfolding cur by simp_all
    have "\<forall>i<k. \<exists>q. play R p (take i line) = Some q
                            \<and> san_of R q (line ! i) = Some (?sans ! i)"
    proof (intro allI impI)
      fix i assume i: "i < k"
      with k have i1: "i \<le> min 10 (length line)" and i2: "i < min 10 (length line)"
        by simp_all
      from b i have "\<exists>q. play R p (take i ?ten) = Some q
                    \<and> san_of R q (?ten ! i) = Some (?sans ! i)" by simp
      then show "\<exists>q. play R p (take i line) = Some q
                            \<and> san_of R q (line ! i) = Some (?sans ! i)"
        unfolding tk [OF i1] nth [OF i2] .
    qed
    with a show "k \<le> length ?sans
                 \<and> (\<forall>i<k. \<exists>q. play R p (take i line) = Some q
                            \<and> san_of R q (line ! i) = Some (?sans ! i))"
      by (rule conjI)
  qed
  have full: "legal_line R p (take 10 line) \<longrightarrow> length ?sans = min 10 (length line)"
  proof
    assume legal: "legal_line R p (take 10 line)"
    have "take (min 10 (length line)) line = take 10 line" by (simp add: min_def)
    with legal have "legal_line R p (take (min 10 (length line)) line)" by simp
    with pre have "min 10 (length line) \<le> length ?sans" by simp
    with l1 l2 show "length ?sans = min 10 (length line)" by linarith
  qed
  have stop: "\<forall>k<min 10 (length line). \<forall>q.
                 legal_line R p (take k line) \<and> play R p (take k line) = Some q
                 \<and> san_of R q (line ! k) = None \<longrightarrow> length ?sans = k"
  proof (intro allI impI)
    fix k q assume k: "k < min 10 (length line)"
    assume h: "legal_line R p (take k line) \<and> play R p (take k line) = Some q
                 \<and> san_of R q (line ! k) = None"
    from k have k1: "k \<le> min 10 (length line)" and k2: "k < length ?ten" by simp_all
    from h have
      a: "legal_line R (cur (new_board p)) (take k ?ten)"
      and b: "play R (cur (new_board p)) (take k ?ten) = Some q"
      and c: "san_of R q (?ten ! k) = None"
      unfolding cur tk [OF k1] nth [OF k] by simp_all
    from pv_san_loop_stops [OF assms(1) a k2 b c] show "length ?sans = k" .
  qed
  from ev res(2,3) l1 l2 pre full stop show ?thesis
    by (intro exI [of _ res] exI [of _ ?sans] conjI)
qed

theorem principal_variation_rendering_witness:
  "legal_moves_render ply_rules
   \<and> engine ply_evaluator = Some ply_engine
   \<and> engine halt_evaluator = Some halt_engine
   \<and> parse_fen ply_rules ''ply'' = Inr 0
   \<and> info_pv (ply_engine 0 (analysis_limit ply_evaluator None None)) = Some (replicate 11 0)
   \<and> legal_line ply_rules 0 (take 10 (replicate 11 0))
   \<and> (\<exists>res sans. evaluate_position ply_rules ply_evaluator ''ply'' None None = Inr res
           \<and> res ''pv'' = Some (PList (map (uci_of ply_rules) (replicate 11 0)))
           \<and> res ''pv_san'' = Some (PList sans)
           \<and> length sans = 10)
   \<and> info_pv (halt_engine 0 (analysis_limit halt_evaluator None None)) = Some [0, 1, 0]
   \<and> legal_line ply_rules 0 (take 1 [0, 1, 0])
   \<and> play ply_rules 0 (take 1 [0, 1, 0]) = Some 1
   \<and> san_of ply_rules 1 ([0, 1, 0] ! 1) = None
   \<and> (\<exists>res sans. evaluate_position ply_rules halt_evaluator ''ply'' None None = Inr res
           \<and> res ''pv'' = Some (PList (map (uci_of ply_rules) [0, 1, 0]))
           \<and> res ''pv_san'' = Some (PList sans)
           \<and> length sans = 1)"
proof -
  have h4: "info_pv (ply_engine 0 (analysis_limit ply_evaluator None None)) = Some (replicate 11 0)"
    by (simp add: ply_engine_def)
  have h5: "replicate 11 (0::nat) \<noteq> []" by simp
  have lg: "legal_line ply_rules 0 (take 10 (replicate 11 0))"
    using ply_legal_line [of 0 10] by simp
  from principal_variation_rendering [OF ply_render ply_started(1) ply_fen0 h4 h5]
  obtain res sans where
    r1: "evaluate_position ply_rules ply_evaluator ''ply'' None None = Inr res"
      "res ''pv'' = Some (PList (map (uci_of ply_rules) (replicate 11 0)))"
      "res ''pv_san'' = Some (PList sans)"
    and full: "legal_line ply_rules 0 (take 10 (replicate 11 0)) \<longrightarrow>
                 length sans = min 10 (length (replicate 11 (0::nat)))"
    by (elim exE conjE)
  from full lg have "length sans = 10" by simp
  with r1 have first: "\<exists>res sans. evaluate_position ply_rules ply_evaluator ''ply'' None None = Inr res
           \<and> res ''pv'' = Some (PList (map (uci_of ply_rules) (replicate 11 0)))
           \<and> res ''pv_san'' = Some (PList sans)
           \<and> length sans = 10"
    by (intro exI conjI)
  have g4: "info_pv (halt_engine 0 (analysis_limit halt_evaluator None None)) = Some [0, 1, 0]"
    by (simp add: halt_engine_def)
  have g5: "[0, 1, 0::nat] \<noteq> []" by simp
  have s1: "legal_line ply_rules 0 (take 1 [0, 1, 0])" by (simp add: ply_fields)
  have s2: "play ply_rules 0 (take 1 [0, 1, 0]) = Some 1" by (simp add: ply_fields)
  have s3: "san_of ply_rules 1 ([0, 1, 0] ! 1) = None" by (simp add: ply_fields)
  from principal_variation_rendering [OF ply_render halt_started ply_fen0 g4 g5]
  obtain res' sans' where
    r2: "evaluate_position ply_rules halt_evaluator ''ply'' None None = Inr res'"
      "res' ''pv'' = Some (PList (map (uci_of ply_rules) [0, 1, 0]))"
      "res' ''pv_san'' = Some (PList sans')"
    and stop: "\<forall>k<min 10 (length [0, 1, 0::nat]). \<forall>q.
                 legal_line ply_rules 0 (take k [0, 1, 0])
                 \<and> play ply_rules 0 (take k [0, 1, 0]) = Some q
                 \<and> san_of ply_rules q ([0, 1, 0] ! k) = None \<longrightarrow> length sans' = k"
    by (elim exE conjE)
  have k1: "(1::nat) < min 10 (length [0, 1, 0::nat])" by simp
  from stop have "1 < min 10 (length [0, 1, 0::nat]) \<longrightarrow>
              (\<forall>q. legal_line ply_rules 0 (take 1 [0, 1, 0])
                 \<and> play ply_rules 0 (take 1 [0, 1, 0]) = Some q
                 \<and> san_of ply_rules q ([0, 1, 0] ! 1) = None \<longrightarrow> length sans' = 1)"
    by (rule spec)
  from this k1 have "\<forall>q. legal_line ply_rules 0 (take 1 [0, 1, 0])
                 \<and> play ply_rules 0 (take 1 [0, 1, 0]) = Some q
                 \<and> san_of ply_rules q ([0, 1, 0] ! 1) = None \<longrightarrow> length sans' = 1"
    by (rule mp)
  then have "legal_line ply_rules 0 (take 1 [0, 1, 0])
                 \<and> play ply_rules 0 (take 1 [0, 1, 0]) = Some 1
                 \<and> san_of ply_rules 1 ([0, 1, 0] ! 1) = None \<longrightarrow> length sans' = 1"
    by (rule spec)
  moreover have "legal_line ply_rules 0 (take 1 [0, 1, 0])
                 \<and> play ply_rules 0 (take 1 [0, 1, 0]) = Some 1
                 \<and> san_of ply_rules 1 ([0, 1, 0] ! 1) = None"
    using s1 s2 s3 by (intro conjI)
  ultimately have "length sans' = 1" by (rule mp)
  with r2 have second: "\<exists>res sans. evaluate_position ply_rules halt_evaluator ''ply'' None None = Inr res
           \<and> res ''pv'' = Some (PList (map (uci_of ply_rules) [0, 1, 0]))
           \<and> res ''pv_san'' = Some (PList sans)
           \<and> length sans = 1"
    by (intro exI conjI)
  from ply_render ply_started(1) halt_started ply_fen0 h4 lg first g4 s1 s2 s3 second
  show ?thesis by (intro conjI)
qed

section \<open>Evaluation of a sequence of moves\<close>

lemma evaluate_position_returns:
  assumes "engine self = Some analyse" and "descriptors_parse R"
  shows "\<exists>ev. evaluate_position R self (fen_of R p) d t = Inr ev"
proof -
  from assms(2) obtain q where q: "parse_fen R (fen_of R p) = Inr q"
    unfolding descriptors_parse_def by blast
  show ?thesis
    unfolding evaluate_position_started [OF assms(1) q]
    by (rule build_result_returns)
qed




section \<open>Comparison of candidate moves\<close>

subsection \<open>The shape of an evaluation, and its negation\<close>

lemma store_pv_other:
  "k \<noteq> ''best_move'' \<Longrightarrow> k \<noteq> ''pv'' \<Longrightarrow> k \<noteq> ''pv_san'' \<Longrightarrow> store_pv R b pv result k = result k"
  by (simp add: store_pv_def split: option.splits list.splits)

lemma store_score_shape:
  assumes "store_score t ps result = Inr r"
  shows "(py_get r ''score'' = PNone \<or> (\<exists>x. py_get r ''score'' = PInt x))
       \<and> (py_get r ''mate'' = PNone \<or> (\<exists>x. py_get r ''mate'' = PInt x))"
proof (cases "if t = BLACK then neg_score (white ps) else white ps")
  case (Cp c)
  with assms have "r = result(''score'' \<mapsto> PInt c, ''mate'' \<mapsto> PNone,
                      ''evaluation_text'' \<mapsto> PStr (format_evaluation c))"
    by (simp add: store_score_def Let_def)
  then show ?thesis by (simp add: py_get_def)
next
  case (Mate m)
  with assms have "r = result(''mate'' \<mapsto> PInt m, ''score'' \<mapsto> PNone,
                      ''evaluation_text'' \<mapsto>
                         PStr (''Mate in '' @ str_nat (nat \<bar>m\<bar>) @
                               (if m > 0 then '' for white'' else '' for black'')))"
    by (simp add: store_score_def Let_def)
  then show ?thesis by (simp add: py_get_def)
next
  case MateGiven
  with assms have "r = result(''mate'' \<mapsto> PInt 0, ''score'' \<mapsto> PNone,
                      ''evaluation_text'' \<mapsto>
                         PStr (''Mate in '' @ str_nat (nat \<bar>0::int\<bar>) @
                               (if (0::int) > 0 then '' for white'' else '' for black'')))"
    by (simp add: store_score_def Let_def)
  then show ?thesis by (simp add: py_get_def)
qed

lemma build_result_shape:
  assumes "build_result R fen board info = Inr ev"
  shows "(py_get ev ''score'' = PNone \<or> (\<exists>x. py_get ev ''score'' = PInt x))
       \<and> (py_get ev ''mate'' = PNone \<or> (\<exists>x. py_get ev ''mate'' = PInt x))"
proof -
  let ?r0 = "[''fen'' \<mapsto> PStr fen,
              ''depth'' \<mapsto> (case info_depth info of None \<Rightarrow> PNone | Some d \<Rightarrow> PInt d)]"
  have pv: "py_get (store_pv R board (info_pv info) r) ''score'' = py_get r ''score''
          \<and> py_get (store_pv R board (info_pv info) r) ''mate'' = py_get r ''mate''" for r
    by (simp add: py_get_def store_pv_other)
  show ?thesis
  proof (cases "info_score info")
    case None
    with assms have "ev = store_pv R board (info_pv info) ?r0"
      by (simp add: build_result_def Let_def)
    then show ?thesis using pv [of ?r0] by (simp add: py_get_def)
  next
    case (Some ps)
    from store_score_returns [of "turn_of R (cur board)" ps ?r0]
    obtain r where r: "store_score (turn_of R (cur board)) ps ?r0 = Inr r" by blast
    with assms Some have "ev = store_pv R board (info_pv info) r"
      by (simp add: build_result_def Let_def)
    then show ?thesis using pv [of r] store_score_shape [OF r] by simp
  qed
qed

lemma evaluate_position_shape:
  assumes "evaluate_position R self fen d t = Inr ev"
  shows "(py_get ev ''score'' = PNone \<or> (\<exists>x. py_get ev ''score'' = PInt x))
       \<and> (py_get ev ''mate'' = PNone \<or> (\<exists>x. py_get ev ''mate'' = PInt x))"
proof (cases "engine self")
  case None
  with assms show ?thesis by (simp add: evaluate_position_def)
next
  case (Some analyse)
  show ?thesis
  proof (cases "parse_fen R fen")
    case (Inl msg)
    with assms Some show ?thesis by (simp add: evaluate_position_def)
  next
    case (Inr p)
    from assms show ?thesis
      unfolding evaluate_position_started [OF Some Inr] by (rule build_result_shape)
  qed
qed

lemma evaluate_position_no_value_error:
  assumes "descriptors_parse R"
  shows "evaluate_position R self (fen_of R p) d t \<noteq> Inl (ValueError msg)"
proof (cases "engine self")
  case None
  then show ?thesis by (simp add: evaluate_position_def)
next
  case (Some analyse)
  from evaluate_position_returns [OF Some assms, of p d t] show ?thesis by auto
qed

lemma negate_entry_int:
  "py_get ev k = PInt x \<Longrightarrow> negate_entry k ev = Inr (ev(k \<mapsto> PInt (- x)))"
  by (simp add: negate_entry_def)

lemma negate_entry_none:
  "py_get ev k = PNone \<Longrightarrow> negate_entry k ev = Inr ev"
  by (simp add: negate_entry_def)

lemma negate_entry_returns:
  assumes "py_get ev k = PNone \<or> (\<exists>x. py_get ev k = PInt x)"
  shows "\<exists>ev'. negate_entry k ev = Inr ev'
           \<and> (\<forall>k'. k' \<noteq> k \<longrightarrow> ev' k' = ev k')
           \<and> (py_get ev k = PNone \<longrightarrow> py_get ev' k = PNone)
           \<and> (\<forall>x. py_get ev k = PInt x \<longrightarrow> py_get ev' k = PInt (- x))"
proof (cases "py_get ev k = PNone")
  case True
  then have "negate_entry k ev = Inr ev" by (rule negate_entry_none)
  with True show ?thesis by simp
next
  case False
  with assms obtain x where x: "py_get ev k = PInt x" by blast
  then have "negate_entry k ev = Inr (ev(k \<mapsto> PInt (- x)))" by (rule negate_entry_int)
  moreover have "py_get (ev(k \<mapsto> PInt (- x))) k = PInt (- x)" by (simp add: py_get_def)
  ultimately show ?thesis using x by simp
qed

text \<open>The two negations in a row.\<close>

lemma negate_both:
  assumes "evaluate_position R self fen d t = Inr ev"
  shows "\<exists>ev1 r. negate_entry ''score'' ev = Inr ev1 \<and> negate_entry ''mate'' ev1 = Inr r
           \<and> (\<forall>x. py_get ev ''score'' = PInt x \<longrightarrow> py_get r ''score'' = PInt (- x))
           \<and> (\<forall>x. py_get ev ''mate'' = PInt x \<longrightarrow> py_get r ''mate'' = PInt (- x))
           \<and> (py_get ev ''score'' = PNone \<longrightarrow> py_get r ''score'' = PNone)
           \<and> (py_get ev ''mate'' = PNone \<longrightarrow> py_get r ''mate'' = PNone)
           \<and> (\<forall>k. k \<noteq> ''score'' \<and> k \<noteq> ''mate'' \<longrightarrow> r k = ev k)"
proof -
  note shape = evaluate_position_shape [OF assms]
  from shape have "py_get ev ''score'' = PNone \<or> (\<exists>x. py_get ev ''score'' = PInt x)"
    by simp
  from negate_entry_returns [OF this] obtain ev1 where
    e1: "negate_entry ''score'' ev = Inr ev1"
      "\<forall>k'. k' \<noteq> ''score'' \<longrightarrow> ev1 k' = ev k'"
      "py_get ev ''score'' = PNone \<longrightarrow> py_get ev1 ''score'' = PNone"
      "\<forall>x. py_get ev ''score'' = PInt x \<longrightarrow> py_get ev1 ''score'' = PInt (- x)"
    by blast
  have m1: "py_get ev1 ''mate'' = py_get ev ''mate''"
    using e1(2) by (simp add: py_get_def)
  from shape have "py_get ev1 ''mate'' = PNone \<or> (\<exists>x. py_get ev1 ''mate'' = PInt x)"
    unfolding m1 by simp
  from negate_entry_returns [OF this] obtain r where
    e2: "negate_entry ''mate'' ev1 = Inr r"
      "\<forall>k'. k' \<noteq> ''mate'' \<longrightarrow> r k' = ev1 k'"
      "py_get ev1 ''mate'' = PNone \<longrightarrow> py_get r ''mate'' = PNone"
      "\<forall>x. py_get ev1 ''mate'' = PInt x \<longrightarrow> py_get r ''mate'' = PInt (- x)"
    unfolding m1 by blast
  have s2: "py_get r ''score'' = py_get ev1 ''score''"
    using e2(2) by (simp add: py_get_def)
  have other: "\<forall>k. k \<noteq> ''score'' \<and> k \<noteq> ''mate'' \<longrightarrow> r k = ev k"
    using e1(2) e2(2) by simp
  have c1: "\<forall>x. py_get ev ''score'' = PInt x \<longrightarrow> py_get r ''score'' = PInt (- x)"
    using e1(4) unfolding s2 .
  have c2: "\<forall>x. py_get ev ''mate'' = PInt x \<longrightarrow> py_get r ''mate'' = PInt (- x)"
    using e2(4) unfolding m1 .
  have c3: "py_get ev ''score'' = PNone \<longrightarrow> py_get r ''score'' = PNone"
    using e1(3) unfolding s2 .
  have c4: "py_get ev ''mate'' = PNone \<longrightarrow> py_get r ''mate'' = PNone"
    using e2(3) unfolding m1 .
  from e1(1) e2(1) c1 c2 c3 c4 other show ?thesis by blast
qed

subsection \<open>The loop, candidate by candidate\<close>

lemma pop_push: "push R b m = Inr b1 \<Longrightarrow> pop b1 = Inr b"
  by (auto simp: push_def pop_def split: option.splits)

lemma compare_loop_step:
  assumes "descriptors_parse R"
  shows "compare_loop R self d board results (s # rest) =
     (case candidate_result R self d (cur board) s of
        Inl e \<Rightarrow> Inl e
      | Inr v \<Rightarrow> compare_loop R self d board (results(s \<mapsto> v)) rest)"
proof (cases "from_uci R s")
  case (Inl msg)
  then show ?thesis by (simp add: candidate_result_def)
next
  case (Inr m)
  show ?thesis
  proof (cases "is_legal R (cur board) m")
    case False
    with Inr show ?thesis by (simp add: candidate_result_def)
  next
    case True
    show ?thesis
    proof (cases "apply_move R (cur board) m")
      case None
      with Inr True show ?thesis by (simp add: candidate_result_def push_def)
    next
      case (Some p')
      let ?b1 = "\<lparr>cur = p', saved = cur board # saved board\<rparr>"
      have psh: "push R board m = Inr ?b1" using Some by (simp add: push_def)
      have pp: "pop ?b1 = Inr board" using pop_push [OF psh] .
      show ?thesis
      proof (cases "evaluate_position R self (fen_of R p') d None")
        case (Inl e)
        have cand: "candidate_result R self d (cur board) s = Inl e"
          using Inr True Some Inl by (simp add: candidate_result_def)
        have nv: "e \<noteq> ValueError msg" for msg
          using evaluate_position_no_value_error [OF assms, of self p' d None msg] Inl by simp
        have "compare_loop R self d board results (s # rest) = Inl e"
        proof (cases e)
          case (ValueError msg)
          with nv [of msg] have False by simp
          then show ?thesis ..
        next
          case (RuntimeError msg)
          with Inr True psh Inl show ?thesis by simp
        next
          case AssertionError
          with Inr True psh Inl show ?thesis by simp
        next
          case IndexError
          with Inr True psh Inl show ?thesis by simp
        next
          case TypeError
          with Inr True psh Inl show ?thesis by simp
        qed
        with cand show ?thesis by simp
      next
        case ev: (Inr ev)
        from negate_both [OF ev] obtain ev1 r where
          n: "negate_entry ''score'' ev = Inr ev1" "negate_entry ''mate'' ev1 = Inr r"
          by (elim exE conjE)
        have cand: "candidate_result R self d (cur board) s = Inr r"
          using Inr True Some ev n by (simp add: candidate_result_def)
        have "compare_loop R self d board results (s # rest) =
                compare_loop R self d board (results(s \<mapsto> r)) rest"
          using Inr True psh ev n pp by simp
        with cand show ?thesis by simp
      qed
    qed
  qed
qed

lemma compare_loop_returned:
  assumes "descriptors_parse R"
      and "compare_loop R self d board results moves = Inr (board', results')"
  shows "board' = board
       \<and> (\<forall>s\<in>set moves. \<exists>v. candidate_result R self d (cur board) s = Inr v \<and> results' s = Some v)
       \<and> (\<forall>s. s \<notin> set moves \<longrightarrow> results' s = results s)"
  using assms(2)
proof (induction moves arbitrary: results)
  case Nil
  then show ?case by simp
next
  case (Cons s rest)
  from Cons.prems obtain v where
    v: "candidate_result R self d (cur board) s = Inr v"
    and run: "compare_loop R self d board (results(s \<mapsto> v)) rest = Inr (board', results')"
    unfolding compare_loop_step [OF assms(1)]
    by (cases "candidate_result R self d (cur board) s") auto
  from Cons.IH [OF run] have
    ih: "board' = board"
      "\<forall>x\<in>set rest. \<exists>w. candidate_result R self d (cur board) x = Inr w \<and> results' x = Some w"
      "\<forall>x. x \<notin> set rest \<longrightarrow> results' x = (results(s \<mapsto> v)) x"
    by blast+
  have here: "\<exists>w. candidate_result R self d (cur board) s = Inr w \<and> results' s = Some w"
  proof (cases "s \<in> set rest")
    case True
    with ih(2) show ?thesis by blast
  next
    case False
    with ih(3) have "results' s = Some v" by simp
    with v show ?thesis by blast
  qed
  have others: "\<forall>x. x \<notin> set (s # rest) \<longrightarrow> results' x = results x"
    using ih(3) by simp
  from ih(1,2) here others show ?case by simp
qed

lemma compare_loop_returns:
  assumes "descriptors_parse R"
      and "\<forall>s\<in>set moves. \<exists>v. candidate_result R self d (cur board) s = Inr v"
  shows "\<exists>results'. compare_loop R self d board results moves = Inr (board, results')"
  using assms(2)
proof (induction moves arbitrary: results)
  case Nil
  show ?case by simp
next
  case (Cons s rest)
  from Cons.prems obtain v where v: "candidate_result R self d (cur board) s = Inr v"
    by auto
  from Cons.prems have "\<forall>x\<in>set rest. \<exists>w. candidate_result R self d (cur board) x = Inr w"
    by simp
  from Cons.IH [OF this, of "results(s \<mapsto> v)"] obtain results' where
    "compare_loop R self d board (results(s \<mapsto> v)) rest = Inr (board, results')"
    by blast
  then have "compare_loop R self d board results (s # rest) = Inr (board, results')"
    unfolding compare_loop_step [OF assms(1)] v by simp
  then show ?case by blast
qed

lemma candidate_result_returns:
  assumes "engine self = Some analyse" and "descriptors_parse R" and "legal_moves_apply R"
  shows "\<exists>v. candidate_result R self d p s = Inr v"
proof (cases "from_uci R s")
  case (Inl msg)
  then show ?thesis by (simp add: candidate_result_def)
next
  case (Inr m)
  show ?thesis
  proof (cases "is_legal R p m")
    case False
    with Inr show ?thesis by (simp add: candidate_result_def)
  next
    case True
    with assms(3) obtain p' where p': "apply_move R p m = Some p'"
      unfolding legal_moves_apply_def by fastforce
    from evaluate_position_returns [OF assms(1,2), of p' d None]
    obtain ev where ev: "evaluate_position R self (fen_of R p') d None = Inr ev" by blast
    from negate_both [OF ev] obtain ev1 r where
      "negate_entry ''score'' ev = Inr ev1" "negate_entry ''mate'' ev1 = Inr r"
      by (elim exE conjE)
    with Inr True p' ev show ?thesis by (simp add: candidate_result_def)
  qed
qed

lemma compare_moves_loop:
  assumes "parse_fen R fen = Inr p"
  shows "compare_moves R self fen moves d = Inr results \<longleftrightarrow>
         (\<exists>b. compare_loop R self d (new_board p) Map.empty moves = Inr (b, results))"
  using assms
  by (cases "compare_loop R self d (new_board p) Map.empty moves")
     (auto simp: compare_moves_def)

lemma candidate_result_ok_iff:
  assumes "legal_moves_apply R"
  shows "(\<exists>v. candidate_result R self d p s = Inr v) \<longleftrightarrow>
         (\<forall>m p'. from_uci R s = Inr m \<and> is_legal R p m \<and> apply_move R p m = Some p' \<longrightarrow>
                  (\<exists>ev. evaluate_position R self (fen_of R p') d None = Inr ev))"
proof (cases "from_uci R s")
  case (Inl msg)
  then show ?thesis by (simp add: candidate_result_def)
next
  case (Inr m)
  show ?thesis
  proof (cases "is_legal R p m")
    case False
    with Inr show ?thesis by (simp add: candidate_result_def)
  next
    case True
    with assms obtain p' where p': "apply_move R p m = Some p'"
      unfolding legal_moves_apply_def by fastforce
    show ?thesis
    proof (cases "evaluate_position R self (fen_of R p') d None")
      case (Inl e)
      with Inr True p' show ?thesis by (simp add: candidate_result_def)
    next
      case ev: (Inr ev)
      from negate_both [OF ev] obtain ev1 r where
        "negate_entry ''score'' ev = Inr ev1" "negate_entry ''mate'' ev1 = Inr r"
        by (elim exE conjE)
      with Inr True p' ev show ?thesis by (simp add: candidate_result_def)
    qed
  qed
qed

lemma ply_compare_returns:
  "\<exists>results. compare_moves ply_rules ply_evaluator ''ply'' moves None = Inr results"
proof -
  have "\<forall>s\<in>set moves. \<exists>v. candidate_result ply_rules ply_evaluator None (cur (new_board 0)) s = Inr v"
    using candidate_result_returns [OF ply_started(1) ply_contracts(1) ply_contracts(2)] by simp
  from compare_loop_returns [OF ply_contracts(1) this, of Map.empty]
  show ?thesis unfolding compare_moves_loop [OF ply_fen0] by auto
qed

subsection \<open>The working position\<close>

text \<open>
  C5. Whenever the loop of \<open>compare_moves\<close> finishes, its working board is the board
  it started from, stack included, so the descriptor of the position is the one before
  the call; this holds for every list of candidates, whatever parses or is legal in it.
  With a started engine the loop does finish. (Stated for rules in which the descriptor
  of a position parses and a legal move can be pushed.)
\<close>

theorem compare_loop_restores_position:
  assumes "descriptors_parse R" and "legal_moves_apply R"
  shows "(\<forall>board' results'. compare_loop R self d board results moves = Inr (board', results')
            \<longrightarrow> board' = board \<and> fen_of R (cur board') = fen_of R (cur board))
       \<and> (engine self \<noteq> None
            \<longrightarrow> (\<exists>results'. compare_loop R self d board results moves = Inr (board, results')))"
proof (intro conjI allI impI)
  fix board' results'
  assume run: "compare_loop R self d board results moves = Inr (board', results')"
  from compare_loop_returned [OF assms(1) run] show "board' = board" by simp
  then show "fen_of R (cur board') = fen_of R (cur board)" by simp
next
  assume "engine self \<noteq> None"
  then obtain analyse where started: "engine self = Some analyse" by auto
  have "\<forall>s\<in>set moves. \<exists>v. candidate_result R self d (cur board) s = Inr v"
    using candidate_result_returns [OF started assms] by simp
  from compare_loop_returns [OF assms(1) this]
  show "\<exists>results'. compare_loop R self d board results moves = Inr (board, results')" .
qed

theorem compare_loop_restores_position_witness:
  "descriptors_parse ply_rules
   \<and> legal_moves_apply ply_rules
   \<and> engine ply_evaluator \<noteq> None
   \<and> (\<exists>results'. compare_loop ply_rules ply_evaluator None (new_board 0) Map.empty
                      [''a1a2'', ''h1h2'', ''zz''] = Inr (new_board 0, results'))"
proof -
  have started: "engine ply_evaluator \<noteq> None" by (simp add: ply_started)
  from compare_loop_restores_position [OF ply_contracts(1) ply_contracts(2),
      of ply_evaluator None "new_board 0" Map.empty "[''a1a2'', ''h1h2'', ''zz'']"] started
  have "\<exists>results'. compare_loop ply_rules ply_evaluator None (new_board 0) Map.empty
                      [''a1a2'', ''h1h2'', ''zz''] = Inr (new_board 0, results')"
    by simp
  with ply_contracts(1) ply_contracts(2) started show ?thesis by simp
qed

subsection \<open>The sign of the reported values\<close>

text \<open>
  C6. For a candidate that parses and is legal at the origin position: if the evaluation
  of the position after the move has the integer \<open>x\<close> under \<open>score\<close>, the entry of
  the candidate in the result has \<open>- x\<close> there, and likewise under \<open>mate\<close>; a value
  of \<open>None\<close> stays \<open>None\<close>, and every other key is as in the evaluation.
\<close>

theorem compare_moves_negates:
  assumes "descriptors_parse R"
      and "parse_fen R fen = Inr p"
      and "compare_moves R self fen moves d = Inr results"
      and "s \<in> set moves"
      and "from_uci R s = Inr m"
      and "is_legal R p m"
      and "apply_move R p m = Some p'"
      and "evaluate_position R self (fen_of R p') d None = Inr ev"
  shows "\<exists>r. results s = Some r
           \<and> (\<forall>x. py_get ev ''score'' = PInt x \<longrightarrow> py_get r ''score'' = PInt (- x))
           \<and> (\<forall>x. py_get ev ''mate'' = PInt x \<longrightarrow> py_get r ''mate'' = PInt (- x))
           \<and> (py_get ev ''score'' = PNone \<longrightarrow> py_get r ''score'' = PNone)
           \<and> (py_get ev ''mate'' = PNone \<longrightarrow> py_get r ''mate'' = PNone)
           \<and> (\<forall>k. k \<noteq> ''score'' \<and> k \<noteq> ''mate'' \<longrightarrow> r k = ev k)"
proof -
  from assms(3) obtain b where
    run: "compare_loop R self d (new_board p) Map.empty moves = Inr (b, results)"
    unfolding compare_moves_loop [OF assms(2)] by (elim exE)
  from compare_loop_returned [OF assms(1) run] assms(4) obtain v where
    v: "candidate_result R self d p s = Inr v" "results s = Some v"
    by (auto simp: new_board_def)
  from negate_both [OF assms(8)] obtain ev1 r where
    n: "negate_entry ''score'' ev = Inr ev1" "negate_entry ''mate'' ev1 = Inr r"
    and c: "\<forall>x. py_get ev ''score'' = PInt x \<longrightarrow> py_get r ''score'' = PInt (- x)"
       "\<forall>x. py_get ev ''mate'' = PInt x \<longrightarrow> py_get r ''mate'' = PInt (- x)"
       "py_get ev ''score'' = PNone \<longrightarrow> py_get r ''score'' = PNone"
       "py_get ev ''mate'' = PNone \<longrightarrow> py_get r ''mate'' = PNone"
       "\<forall>k. k \<noteq> ''score'' \<and> k \<noteq> ''mate'' \<longrightarrow> r k = ev k"
    by (elim exE conjE)
  have "candidate_result R self d p s = Inr r"
    using assms(5,6,7,8) n by (simp add: candidate_result_def)
  with v have "results s = Some r" by simp
  with c show ?thesis by (intro exI [of _ r] conjI)
qed

theorem compare_moves_negates_witness:
  "descriptors_parse ply_rules
   \<and> parse_fen ply_rules ''ply'' = Inr 0
   \<and> ''a1a2'' \<in> set [''h1h2'', ''a1a2'']
   \<and> from_uci ply_rules ''a1a2'' = Inr 0
   \<and> is_legal ply_rules 0 0
   \<and> apply_move ply_rules 0 0 = Some 1
   \<and> (\<exists>results ev r.
         compare_moves ply_rules ply_evaluator ''ply'' [''h1h2'', ''a1a2''] None = Inr results
         \<and> evaluate_position ply_rules ply_evaluator (fen_of ply_rules 1) None None = Inr ev
         \<and> py_get ev ''score'' = PInt 100
         \<and> py_get ev ''mate'' = PNone
         \<and> results ''a1a2'' = Some r
         \<and> py_get r ''score'' = PInt (- 100)
         \<and> py_get r ''mate'' = PNone)"
proof -
  let ?ev = "[''fen'' \<mapsto> PStr (fen_of ply_rules 1), ''depth'' \<mapsto> PInt 20,
          ''score'' \<mapsto> PInt 100, ''mate'' \<mapsto> PNone,
          ''evaluation_text'' \<mapsto> PStr ''Slight advantage for white (+1.00)'',
          ''best_move'' \<mapsto> PStr ''a1a2'',
          ''pv'' \<mapsto> PList (replicate 11 ''a1a2''),
          ''pv_san'' \<mapsto> PList (replicate 10 ''a2'')]"
  have h4: "''a1a2'' \<in> set [''h1h2'', ''a1a2'']" by simp
  have h5: "from_uci ply_rules ''a1a2'' = Inr 0" by (simp add: ply_fields)
  have h6: "is_legal ply_rules 0 0" by (simp add: ply_fields)
  have h7: "apply_move ply_rules 0 0 = Some 1" by (simp add: ply_fields)
  have h8: "evaluate_position ply_rules ply_evaluator (fen_of ply_rules 1) None None = Inr ?ev"
    by (rule ply_evaluate)
  have sc: "py_get ?ev ''score'' = PInt 100" by (simp add: py_get_def)
  have mt: "py_get ?ev ''mate'' = PNone" by (simp add: py_get_def)
  from ply_compare_returns [of "[''h1h2'', ''a1a2'']"] obtain results where
    run: "compare_moves ply_rules ply_evaluator ''ply'' [''h1h2'', ''a1a2''] None = Inr results"
    by (elim exE)
  from compare_moves_negates [OF ply_contracts(1) ply_fen0 run h4 h5 h6 h7 h8]
  obtain r where r: "results ''a1a2'' = Some r"
    and neg: "\<forall>x. py_get ?ev ''score'' = PInt x \<longrightarrow> py_get r ''score'' = PInt (- x)"
    and keep: "py_get ?ev ''mate'' = PNone \<longrightarrow> py_get r ''mate'' = PNone"
    by (elim exE conjE)
  from neg sc have rs: "py_get r ''score'' = PInt (- 100)" by simp
  from keep mt have rm: "py_get r ''mate'' = PNone" by simp
  have "\<exists>results ev r.
         compare_moves ply_rules ply_evaluator ''ply'' [''h1h2'', ''a1a2''] None = Inr results
         \<and> evaluate_position ply_rules ply_evaluator (fen_of ply_rules 1) None None = Inr ev
         \<and> py_get ev ''score'' = PInt 100
         \<and> py_get ev ''mate'' = PNone
         \<and> results ''a1a2'' = Some r
         \<and> py_get r ''score'' = PInt (- 100)
         \<and> py_get r ''mate'' = PNone"
    using run h8 sc mt r rs rm by (intro exI conjI)
  with ply_contracts(1) ply_fen0 h4 h5 h6 h7 show ?thesis by (intro conjI)
qed

subsection \<open>Candidates that are not legal or do not parse\<close>

text \<open>
  C7. The call returns exactly when the evaluation of every legal candidate returns, so
  a candidate that is not legal or does not parse never makes it fail; with a started
  engine it always returns. In the result every candidate has an entry: for a candidate
  that does not parse, the dictionary with the single key \<open>error\<close> and the message of
  the parser; for one that parses and is not legal at the origin position, the
  dictionary with the single key \<open>error\<close> and the text \<open>Illegal move\<close>. The
  candidates after it are processed all the same.
\<close>

theorem compare_moves_error_markers:
  assumes "descriptors_parse R"
      and "legal_moves_apply R"
      and "parse_fen R fen = Inr p"
  shows "((\<exists>results. compare_moves R self fen moves d = Inr results) \<longleftrightarrow>
          (\<forall>s\<in>set moves. \<forall>m p'.
              from_uci R s = Inr m \<and> is_legal R p m \<and> apply_move R p m = Some p' \<longrightarrow>
              (\<exists>ev. evaluate_position R self (fen_of R p') d None = Inr ev)))
       \<and> (engine self \<noteq> None \<longrightarrow> (\<exists>results. compare_moves R self fen moves d = Inr results))
       \<and> (\<forall>results. compare_moves R self fen moves d = Inr results \<longrightarrow>
             dom results = set moves
             \<and> (\<forall>s\<in>set moves.
                   (\<forall>msg. from_uci R s = Inl msg \<longrightarrow>
                      results s = Some [''error'' \<mapsto> PStr msg])
                 \<and> (\<forall>m. from_uci R s = Inr m \<and> \<not> is_legal R p m \<longrightarrow>
                      results s = Some [''error'' \<mapsto> PStr ''Illegal move''])))"
proof -
  let ?ok = "\<lambda>s. \<forall>m p'. from_uci R s = Inr m \<and> is_legal R p m \<and> apply_move R p m = Some p' \<longrightarrow>
                  (\<exists>ev. evaluate_position R self (fen_of R p') d None = Inr ev)"
  have cur: "cur (new_board p) = p" by (simp add: new_board_def)
  have a: "(\<exists>results. compare_moves R self fen moves d = Inr results) \<longleftrightarrow> (\<forall>s\<in>set moves. ?ok s)"
  proof
    assume "\<exists>results. compare_moves R self fen moves d = Inr results"
    then obtain results b where
      run: "compare_loop R self d (new_board p) Map.empty moves = Inr (b, results)"
      unfolding compare_moves_loop [OF assms(3)] by (elim exE)
    from compare_loop_returned [OF assms(1) run]
    have "\<forall>s\<in>set moves. \<exists>v. candidate_result R self d p s = Inr v"
      unfolding cur by auto
    then show "\<forall>s\<in>set moves. ?ok s"
      unfolding candidate_result_ok_iff [OF assms(2)] .
  next
    assume "\<forall>s\<in>set moves. ?ok s"
    then have "\<forall>s\<in>set moves. \<exists>v. candidate_result R self d (cur (new_board p)) s = Inr v"
      unfolding candidate_result_ok_iff [OF assms(2)] cur .
    from compare_loop_returns [OF assms(1) this, of Map.empty]
    show "\<exists>results. compare_moves R self fen moves d = Inr results"
      unfolding compare_moves_loop [OF assms(3)] by auto
  qed
  have b: "engine self \<noteq> None \<longrightarrow> (\<exists>results. compare_moves R self fen moves d = Inr results)"
  proof
    assume "engine self \<noteq> None"
    then obtain analyse where started: "engine self = Some analyse" by auto
    have "\<forall>s\<in>set moves. \<exists>v. candidate_result R self d (cur (new_board p)) s = Inr v"
      using candidate_result_returns [OF started assms(1,2)] by simp
    from compare_loop_returns [OF assms(1) this, of Map.empty]
    show "\<exists>results. compare_moves R self fen moves d = Inr results"
      unfolding compare_moves_loop [OF assms(3)] by auto
  qed
  have c: "\<forall>results. compare_moves R self fen moves d = Inr results \<longrightarrow>
             dom results = set moves
             \<and> (\<forall>s\<in>set moves.
                   (\<forall>msg. from_uci R s = Inl msg \<longrightarrow>
                      results s = Some [''error'' \<mapsto> PStr msg])
                 \<and> (\<forall>m. from_uci R s = Inr m \<and> \<not> is_legal R p m \<longrightarrow>
                      results s = Some [''error'' \<mapsto> PStr ''Illegal move'']))"
  proof (intro allI impI)
    fix results
    assume "compare_moves R self fen moves d = Inr results"
    then obtain b where
      run: "compare_loop R self d (new_board p) Map.empty moves = Inr (b, results)"
      unfolding compare_moves_loop [OF assms(3)] by (elim exE)
    from compare_loop_returned [OF assms(1) run] have
      inside: "\<forall>s\<in>set moves. \<exists>v. candidate_result R self d p s = Inr v \<and> results s = Some v"
      and outside: "\<forall>s. s \<notin> set moves \<longrightarrow> results s = None"
      unfolding cur by simp_all
    have dom: "dom results = set moves"
    proof (rule set_eqI)
      fix s show "s \<in> dom results \<longleftrightarrow> s \<in> set moves"
        using inside outside by (cases "s \<in> set moves") auto
    qed
    have marks: "\<forall>s\<in>set moves.
                   (\<forall>msg. from_uci R s = Inl msg \<longrightarrow>
                      results s = Some [''error'' \<mapsto> PStr msg])
                 \<and> (\<forall>m. from_uci R s = Inr m \<and> \<not> is_legal R p m \<longrightarrow>
                      results s = Some [''error'' \<mapsto> PStr ''Illegal move''])"
    proof (intro ballI conjI allI impI)
      fix s msg assume s: "s \<in> set moves" and f: "from_uci R s = Inl msg"
      from inside s obtain v where v: "candidate_result R self d p s = Inr v" "results s = Some v"
        by auto
      from v(1) f have "v = [''error'' \<mapsto> PStr msg]" by (simp add: candidate_result_def)
      with v(2) show "results s = Some [''error'' \<mapsto> PStr msg]" by simp
    next
      fix s m assume s: "s \<in> set moves" and f: "from_uci R s = Inr m \<and> \<not> is_legal R p m"
      from inside s obtain v where v: "candidate_result R self d p s = Inr v" "results s = Some v"
        by auto
      from v(1) f have "v = [''error'' \<mapsto> PStr ''Illegal move'']"
        by (simp add: candidate_result_def)
      with v(2) show "results s = Some [''error'' \<mapsto> PStr ''Illegal move'']" by simp
    qed
    from dom marks show "dom results = set moves
             \<and> (\<forall>s\<in>set moves.
                   (\<forall>msg. from_uci R s = Inl msg \<longrightarrow>
                      results s = Some [''error'' \<mapsto> PStr msg])
                 \<and> (\<forall>m. from_uci R s = Inr m \<and> \<not> is_legal R p m \<longrightarrow>
                      results s = Some [''error'' \<mapsto> PStr ''Illegal move'']))"
      by (rule conjI)
  qed
  from a b c show ?thesis by (intro conjI)
qed

theorem compare_moves_error_markers_witness:
  "descriptors_parse ply_rules
   \<and> legal_moves_apply ply_rules
   \<and> parse_fen ply_rules ''ply'' = Inr 0
   \<and> from_uci ply_rules ''zz'' = Inl ''invalid uci''
   \<and> from_uci ply_rules ''h1h2'' = Inr 1
   \<and> \<not> is_legal ply_rules 0 1
   \<and> (\<exists>results.
         compare_moves ply_rules ply_evaluator ''ply'' [''h1h2'', ''zz'', ''a1a2''] None = Inr results
         \<and> dom results = {''h1h2'', ''zz'', ''a1a2''}
         \<and> results ''h1h2'' = Some [''error'' \<mapsto> PStr ''Illegal move'']
         \<and> results ''zz'' = Some [''error'' \<mapsto> PStr ''invalid uci''])"
proof -
  let ?moves = "[''h1h2'', ''zz'', ''a1a2'']"
  have z: "from_uci ply_rules ''zz'' = Inl ''invalid uci''" by (simp add: ply_fields)
  have h: "from_uci ply_rules ''h1h2'' = Inr 1" by (simp add: ply_fields)
  have il: "\<not> is_legal ply_rules 0 1" by (simp add: ply_fields)
  have started: "engine ply_evaluator \<noteq> None" by (simp add: ply_started)
  note inst = compare_moves_error_markers [OF ply_contracts(1) ply_contracts(2) ply_fen0,
      of ply_evaluator ?moves None]
  from inst started obtain results where
    run: "compare_moves ply_rules ply_evaluator ''ply'' ?moves None = Inr results"
    by auto
  from inst run have
    dom: "dom results = set ?moves"
    and marks: "\<forall>s\<in>set ?moves.
                   (\<forall>msg. from_uci ply_rules s = Inl msg \<longrightarrow>
                      results s = Some [''error'' \<mapsto> PStr msg])
                 \<and> (\<forall>m. from_uci ply_rules s = Inr m \<and> \<not> is_legal ply_rules 0 m \<longrightarrow>
                      results s = Some [''error'' \<mapsto> PStr ''Illegal move''])"
    by simp_all
  have d: "dom results = {''h1h2'', ''zz'', ''a1a2''}" using dom by simp
  have "''zz'' \<in> set ?moves" by simp
  with marks z have rz: "results ''zz'' = Some [''error'' \<mapsto> PStr ''invalid uci'']"
    by simp
  have "''h1h2'' \<in> set ?moves" by simp
  with marks h il have rh: "results ''h1h2'' = Some [''error'' \<mapsto> PStr ''Illegal move'']"
    by simp
  have "\<exists>results.
         compare_moves ply_rules ply_evaluator ''ply'' ?moves None = Inr results
         \<and> dom results = {''h1h2'', ''zz'', ''a1a2''}
         \<and> results ''h1h2'' = Some [''error'' \<mapsto> PStr ''Illegal move'']
         \<and> results ''zz'' = Some [''error'' \<mapsto> PStr ''invalid uci'']"
    using run d rh rz by (intro exI conjI)
  with ply_contracts(1) ply_contracts(2) ply_fen0 z h il show ?thesis by (intro conjI)
qed

end
